theory Spec2Isabelle
  imports Main
begin

chapter \<open>The model\<close>

section \<open>Extension and version tracking (emit.cpp, \<open>ExtensionUsageTracker\<close>)\<close>

text \<open>
  \<open>ProfileVersion\<close> is an enum class declared outside the files at hand; the code only
  ever compares its values after the cast \<open>(UInt)version\<close>, so a version is modelled by
  that unsigned number.  The tracker is the struct of emit.cpp, lines 32-39.
\<close>

type_synonym ProfileVersion = nat

record ExtensionUsageTracker =
  glslExtensionsRequired :: "string set"
  glslExtensionRequireLines :: string
  profileVersion :: ProfileVersion

definition requireGLSLExtension :: "ExtensionUsageTracker \<Rightarrow> string \<Rightarrow> ExtensionUsageTracker" where
  "requireGLSLExtension tracker name =
     (if name \<in> glslExtensionsRequired tracker then tracker
      else tracker\<lparr>
        glslExtensionRequireLines :=
          glslExtensionRequireLines tracker @ ''#extension '' @ name @ '' : require'' @ [CHR 0x0A],
        glslExtensionsRequired := insert name (glslExtensionsRequired tracker)\<rparr>)"

definition requireGLSLVersionImpl :: "ExtensionUsageTracker \<Rightarrow> ProfileVersion \<Rightarrow> ExtensionUsageTracker" where
  "requireGLSLVersionImpl tracker version =
     (if version > profileVersion tracker then tracker\<lparr>profileVersion := version\<rparr> else tracker)"

text \<open>A sequence of calls on one tracker, first call first.\<close>

definition requireGLSLVersions :: "ExtensionUsageTracker \<Rightarrow> ProfileVersion list \<Rightarrow> ExtensionUsageTracker" where
  "requireGLSLVersions tracker versions = foldl requireGLSLVersionImpl tracker versions"

section \<open>The text writer and source-location tracking (emit.cpp, \<open>SharedEmitContext\<close>)\<close>

text \<open>
  \<open>HumaneSourceLoc\<close> and \<open>LineDirectiveMode\<close> are declared outside the files at hand.
  A location is a path with a signed line and column (the code tests \<open>line <= 0\<close>); the
  mode has the four values the emitter switches on.  Of \<open>SharedEmitContext\<close> the record
  keeps the fields the writer reads or writes; \<open>lineDirectiveMode\<close> stands for
  \<open>entryPoint->compileRequest->lineDirectiveMode\<close>.
\<close>

record HumaneSourceLoc =
  path :: string
  line :: int
  column :: int

datatype LineDirectiveMode =
  LineDirectiveMode_Default | LineDirectiveMode_None | LineDirectiveMode_Standard | LineDirectiveMode_GLSL

record SharedEmitContext =
  lineDirectiveMode :: LineDirectiveMode
  sb :: string
  loc :: HumaneSourceLoc
  nextSourceLocation :: HumaneSourceLoc
  needToUpdateSourceLocation :: bool
  mapGLSLSourcePathToID :: "string \<rightharpoonup> int"
  glslSourceIDCount :: int
  isAtStartOfLine :: bool
  indentLevel :: int

text \<open>
  \<open>SLANG_UNEXPECTED\<close> and a failed \<open>SLANG_RELEASE_ASSERT\<close> abort the emitter; they are
  error values here.  \<open>FlushDepthExceeded\<close> is the model's own: see
  \<open>flushSourceLocationChange\<close> below.
\<close>

datatype emit_error = Unexpected string | ReleaseAssertFailed | FlushDepthExceeded

type_synonym emit_result = "emit_error + SharedEmitContext"

abbreviation newline :: char where "newline \<equiv> CHR 0x0A"
abbreviation backslash :: char where "backslash \<equiv> CHR 0x5C"
abbreviation dquote :: char where "dquote \<equiv> CHR 0x22"

definition emitRawText :: "SharedEmitContext \<Rightarrow> string \<Rightarrow> SharedEmitContext" where
  "emitRawText c text = c\<lparr>sb := sb c @ text\<rparr>"

text \<open>\<open>sprintf\<close> with \<open>%llu\<close> and \<open>%d\<close>: decimal digits, with a sign for \<open>%d\<close>.\<close>

fun decimal :: "nat \<Rightarrow> string" where
  "decimal n = (if n < 10 then [char_of (48 + n)] else decimal (n div 10) @ [char_of (48 + n mod 10)])"

declare decimal.simps [simp del]

definition formatInt :: "int \<Rightarrow> string" where
  "formatInt i = (if i < 0 then CHR ''-'' # decimal (nat (- i)) else decimal (nat i))"

text \<open>
  \<open>emitLineDirective\<close> (lines 544-642).  The text after the line number is either the
  integer the path is mapped to (assigned on first use) or the quoted path with every
  backslash turned into a slash.  The \<open>switch\<close> on the mode has a \<open>default:\<close> branch that no
  value of the four-valued enum reaches.  The code prints the line number into a buffer of
  16 characters, which holds the digits of every line below \<open>10^15\<close>; the definition prints
  the digits of any line, and so agrees with the code on the lines a source file has.
\<close>

definition canonicalPathChar :: "char \<Rightarrow> string" where
  "canonicalPathChar ch = (if ch = backslash then ''/'' else [ch])"

definition emitLineDirectivePath :: "bool \<Rightarrow> SharedEmitContext \<Rightarrow> HumaneSourceLoc \<Rightarrow> SharedEmitContext" where
  "emitLineDirectivePath shouldUseGLSLStyleLineDirective c sourceLocation =
     (let c1 =
        (if shouldUseGLSLStyleLineDirective then
           (case mapGLSLSourcePathToID c (path sourceLocation) of
              Some i \<Rightarrow> emitRawText c (formatInt i)
            | None \<Rightarrow>
                emitRawText
                  (c\<lparr>glslSourceIDCount := glslSourceIDCount c + 1,
                     mapGLSLSourcePathToID :=
                       (mapGLSLSourcePathToID c)(path sourceLocation \<mapsto> glslSourceIDCount c)\<rparr>)
                  (formatInt (glslSourceIDCount c)))
         else
           emitRawText
             (foldl (\<lambda>c' ch. emitRawText c' (canonicalPathChar ch))
                (emitRawText c [dquote]) (path sourceLocation))
             [dquote])
      in emitRawText c1 [newline])"

definition emitLineDirective :: "SharedEmitContext \<Rightarrow> HumaneSourceLoc \<Rightarrow> emit_result" where
  "emitLineDirective c sourceLocation =
     (let c1 = emitRawText c (newline # ''#line '');
          c2 = emitRawText c1 (decimal (nat (line sourceLocation mod 2 ^ 64)));
          c3 = emitRawText c2 '' ''
      in case lineDirectiveMode c of
           LineDirectiveMode_None \<Rightarrow> Inl (Unexpected ''should not be trying to emit #line directive'')
         | LineDirectiveMode_Default \<Rightarrow> Inl (Unexpected ''should not be trying to emit #line directive'')
         | LineDirectiveMode_Standard \<Rightarrow> Inr (emitLineDirectivePath False c3 sourceLocation)
         | LineDirectiveMode_GLSL \<Rightarrow> Inr (emitLineDirectivePath True c3 sourceLocation))"

definition emitLineDirectiveAndUpdateSourceLocation ::
    "SharedEmitContext \<Rightarrow> HumaneSourceLoc \<Rightarrow> emit_result" where
  "emitLineDirectiveAndUpdateSourceLocation c sourceLocation =
     (case emitLineDirective c sourceLocation of
        Inl e \<Rightarrow> Inl e
      | Inr c' \<Rightarrow> Inr (c'\<lparr>loc := sourceLocation\<lparr>column := 1\<rparr>\<rparr>))"

text \<open>The indentation loop of \<open>emitTextSpan\<close>: one \<open>"    "\<close> per level.\<close>

primrec emitIndentation :: "nat \<Rightarrow> SharedEmitContext \<Rightarrow> SharedEmitContext" where
  "emitIndentation 0 c = c"
| "emitIndentation (Suc n) c =
     emitIndentation n
       ((emitRawText c ''    '')\<lparr>loc := (loc c)\<lparr>column := column (loc c) + 4\<rparr>\<rparr>)"

text \<open>
  \<open>Emit\<close>, \<open>emitTextSpan\<close>, \<open>flushSourceLocationChange\<close> and
  \<open>emitLineDirectiveIfNeeded\<close> call each other: writing text flushes a pending location,
  which may write newlines.  \<open>flushSourceLocationChange\<close> clears the pending flag before
  it calls \<open>emitLineDirectiveIfNeeded\<close>, so a flush inside a flush finds nothing to do.
  The first argument bounds the depth of flushes inside flushes and makes the recursion
  terminate; a flush with nothing pending never consults it.
  \<open>emitNewlines\<close> is the loop \<open>for(ii = 0; ii < lineDiff; ++ii) Emit("\n")\<close>, and
  \<open>Emit_spans\<close> the loop of \<open>Emit\<close> over the text, with the span collected so far.
\<close>

function (sequential) flushSourceLocationChange :: "nat \<Rightarrow> SharedEmitContext \<Rightarrow> emit_result"
  and emitLineDirectiveIfNeeded :: "nat \<Rightarrow> SharedEmitContext \<Rightarrow> HumaneSourceLoc \<Rightarrow> emit_result"
  and emitNewlines :: "nat \<Rightarrow> nat \<Rightarrow> SharedEmitContext \<Rightarrow> emit_result"
  and Emit_spans :: "nat \<Rightarrow> SharedEmitContext \<Rightarrow> string \<Rightarrow> string \<Rightarrow> emit_result"
  and emitTextSpan :: "nat \<Rightarrow> SharedEmitContext \<Rightarrow> string \<Rightarrow> emit_result"
where
  "flushSourceLocationChange 0 c =
     (if \<not> needToUpdateSourceLocation c then Inr c else Inl FlushDepthExceeded)"
| "flushSourceLocationChange (Suc depth) c =
     (if \<not> needToUpdateSourceLocation c then Inr c
      else emitLineDirectiveIfNeeded depth
             (c\<lparr>needToUpdateSourceLocation := False\<rparr>) (nextSourceLocation c))"
| "emitLineDirectiveIfNeeded depth c sourceLocation =
     (if lineDirectiveMode c = LineDirectiveMode_None
         \<or> lineDirectiveMode c = LineDirectiveMode_Default then Inr c
      else if line sourceLocation \<le> 0 then Inr c
      else if path sourceLocation \<noteq> path (loc c)
              \<or> line sourceLocation \<noteq> line (loc c)
              \<or> column sourceLocation < column (loc c) then
        (let lineDiff = line sourceLocation - line (loc c) in
         if path sourceLocation = path (loc c)
            \<and> line sourceLocation > line (loc c)
            \<and> lineDiff \<le> 3 then
           (case emitNewlines depth (nat lineDiff) c of
              Inl e \<Rightarrow> Inl e
            | Inr c' \<Rightarrow>
                if line sourceLocation = line (loc c') then Inr c' else Inl ReleaseAssertFailed)
         else emitLineDirectiveAndUpdateSourceLocation c sourceLocation)
      else Inr c)"
| "emitNewlines depth 0 c = Inr c"
| "emitNewlines depth (Suc k) c =
     (case Emit_spans depth c [] [newline] of
        Inl e \<Rightarrow> Inl e
      | Inr c' \<Rightarrow> emitNewlines depth k c')"
| "Emit_spans depth c span [] = emitTextSpan depth c span"
| "Emit_spans depth c span (ch # rest) =
     (if ch = newline then
        (case emitTextSpan depth c (span @ [ch]) of
           Inl e \<Rightarrow> Inl e
         | Inr c' \<Rightarrow>
             Emit_spans depth
               (c'\<lparr>loc := (loc c')\<lparr>line := line (loc c') + 1, column := 1\<rparr>,
                   isAtStartOfLine := True\<rparr>)
               [] rest)
      else Emit_spans depth c (span @ [ch]) rest)"
| "emitTextSpan depth c span =
     (if span = [] then Inr c
      else
        (case flushSourceLocationChange depth c of
           Inl e \<Rightarrow> Inl e
         | Inr c1 \<Rightarrow>
             (let c2 = (if isAtStartOfLine c1 \<and> hd span \<noteq> newline
                        then emitIndentation (nat (indentLevel c1)) (c1\<lparr>isAtStartOfLine := False\<rparr>)
                        else c1);
                  c3 = emitRawText c2 span
              in Inr (c3\<lparr>loc := (loc c3)\<lparr>column := column (loc c3) + int (length span)\<rparr>\<rparr>))))"

  by pat_completeness auto

termination
  by (relation "inv_image (less_than <*lex*> less_than <*lex*> less_than)
        (\<lambda>x. case x of
           Inl (Inl (d, c)) \<Rightarrow> (d, 0::nat, 0::nat)
         | Inl (Inr (d, c, s)) \<Rightarrow> (d, 5, 0)
         | Inr (Inl (d, k, c)) \<Rightarrow> (d, 4, k)
         | Inr (Inr (Inl (d, c, sp, rest))) \<Rightarrow> (d, 3, length rest)
         | Inr (Inr (Inr (d, c, sp))) \<Rightarrow> (d, 2, 0))") auto

definition Emit :: "nat \<Rightarrow> SharedEmitContext \<Rightarrow> string \<Rightarrow> emit_result" where
  "Emit depth c text = Emit_spans depth c [] text"

definition advanceToSourceLocation :: "SharedEmitContext \<Rightarrow> HumaneSourceLoc \<Rightarrow> SharedEmitContext" where
  "advanceToSourceLocation c sourceLocation =
     (if line sourceLocation \<le> 0 then c
      else c\<lparr>needToUpdateSourceLocation := True, nextSourceLocation := sourceLocation\<rparr>)"

text \<open>A context in the middle of line 10 of \<open>a.slang\<close>, with nothing pending.\<close>

definition example_ctx :: SharedEmitContext where
  "example_ctx = \<lparr>lineDirectiveMode = LineDirectiveMode_Standard, sb = ''x'',
     loc = \<lparr>path = ''a.slang'', line = 10, column = 5\<rparr>,
     nextSourceLocation = \<lparr>path = [], line = 0, column = 0\<rparr>,
     needToUpdateSourceLocation = False, mapGLSLSourcePathToID = Map.empty,
     glslSourceIDCount = 0, isAtStartOfLine = False, indentLevel = 0\<rparr>"

section \<open>Generics lowering (slang-ir-lower-generics.cpp)\<close>

subsection \<open>The IR, as far as the specialize step reads and writes it\<close>

text \<open>
  An instruction is known by its address (\<open>IRInst*\<close>), a number here.  It has an opcode,
  a type (an instruction too, and a use of it), operands, and for an integer literal its
  value.  The module lists its instructions in order.  The IR classes and \<open>IRBuilder\<close> are
  declared outside the files at hand: \<open>replaceUsesWith\<close> redirects every use of an
  instruction (as operand or as type), \<open>removeAndDeallocate\<close> takes an instruction out of the
  module, and the builder hands out one instruction per type and one per integer constant
  of a type and value, creating it before the insertion point when the module has none.
\<close>

type_synonym inst_ref = nat

datatype IROp =
    kIROp_RTTIObject
  | kIROp_getAddr
  | kIROp_IntLit
  | kIROp_UInt64Type
  | kIROp_WitnessTableIDType
  | kIROp_RTTIHandleType
  | kIROp_InterfaceType
  | kIROp_Other

record IRInst =
  op :: IROp
  dataType :: "inst_ref option"
  operands :: "inst_ref list"
  intValue :: int

type_synonym IRModule = "(inst_ref \<times> IRInst) list"

definition getInst :: "IRModule \<Rightarrow> inst_ref \<Rightarrow> IRInst option" where
  "getInst m i = map_of m i"

definition freshRef :: "IRModule \<Rightarrow> inst_ref" where
  "freshRef m = Suc (fold max (map fst m) 0)"

fun insertBefore :: "inst_ref \<Rightarrow> inst_ref \<times> IRInst \<Rightarrow> IRModule \<Rightarrow> IRModule" where
  "insertBefore anchor new [] = [new]"
| "insertBefore anchor new (x # xs) =
     (if fst x = anchor then new # x # xs else x # insertBefore anchor new xs)"

definition redirect :: "inst_ref \<Rightarrow> inst_ref \<Rightarrow> inst_ref \<Rightarrow> inst_ref" where
  "redirect old new r = (if r = old then new else r)"

definition replaceUsesWith :: "inst_ref \<Rightarrow> inst_ref \<Rightarrow> IRModule \<Rightarrow> IRModule" where
  "replaceUsesWith old new m =
     map (\<lambda>(i, inst). (i, inst\<lparr>dataType := map_option (redirect old new) (dataType inst),
                                 operands := map (redirect old new) (operands inst)\<rparr>)) m"

definition removeAndDeallocate :: "inst_ref \<Rightarrow> IRModule \<Rightarrow> IRModule" where
  "removeAndDeallocate i m = filter (\<lambda>(j, inst). j \<noteq> i) m"

definition getUInt64Type :: "inst_ref \<Rightarrow> IRModule \<Rightarrow> inst_ref \<times> IRModule" where
  "getUInt64Type anchor m =
     (case find (\<lambda>(i, inst). op inst = kIROp_UInt64Type) m of
        Some (i, inst) \<Rightarrow> (i, m)
      | None \<Rightarrow>
          (freshRef m,
           insertBefore anchor
             (freshRef m, \<lparr>op = kIROp_UInt64Type, dataType = None, operands = [], intValue = 0\<rparr>) m))"

definition getIntValue :: "inst_ref \<Rightarrow> inst_ref \<Rightarrow> int \<Rightarrow> IRModule \<Rightarrow> inst_ref \<times> IRModule" where
  "getIntValue anchor ty v m =
     (case find (\<lambda>(i, inst). op inst = kIROp_IntLit \<and> dataType inst = Some ty \<and> intValue inst = v) m of
        Some (i, inst) \<Rightarrow> (i, m)
      | None \<Rightarrow>
          (freshRef m,
           insertBefore anchor
             (freshRef m, \<lparr>op = kIROp_IntLit, dataType = Some ty, operands = [], intValue = v\<rparr>) m))"

text \<open>
  The users of an instruction: one entry per use, as the use list has.  An instruction uses
  its type and its operands.
\<close>

definition usersOf :: "inst_ref \<Rightarrow> IRModule \<Rightarrow> inst_ref list" where
  "usersOf r m =
     concat (map (\<lambda>(i, inst).
                    replicate ((if dataType inst = Some r then 1 else 0)
                               + length (filter (\<lambda>x. x = r) (operands inst))) i) m)"

subsection \<open>\<open>specializeRTTIObjectReferences\<close> and \<open>cleanUpRTTIHandleTypes\<close>\<close>

text \<open>
  Lines 20-39.  \<open>mapTypeToRTTIObject\<close> is enumerated as a list of (type, RTTI object)
  entries.  In each round the builder makes the constant for \<open>id\<close>; then, for every use of
  the RTTI object whose user is a \<open>getAddr\<close>, the uses of that user are redirected to the
  constant.  The walk over the use list keeps \<open>nextUse\<close> in hand, and redirecting the uses
  of a user changes no use of the RTTI object, so the users are those at the round's start.
  The variable \<open>id\<close> is set to 0 before the loop and nothing in the loop assigns it.
\<close>

definition replaceGetAddrUser :: "inst_ref \<Rightarrow> IRModule \<Rightarrow> inst_ref \<Rightarrow> IRModule" where
  "replaceGetAddrUser idOperand m user =
     (case getInst m user of
        Some inst \<Rightarrow> (if op inst = kIROp_getAddr then replaceUsesWith user idOperand m else m)
      | None \<Rightarrow> m)"

fun specializeRTTIObjectReferences_loop ::
    "nat \<Rightarrow> (inst_ref \<times> inst_ref) list \<Rightarrow> IRModule \<Rightarrow> IRModule" where
  "specializeRTTIObjectReferences_loop id' [] m = m"
| "specializeRTTIObjectReferences_loop id' ((ty, rtti) # rest) m =
     (let (u64, m1) = getUInt64Type rtti m;
          (idOperand, m2) = getIntValue rtti u64 (int id') m1;
          m3 = foldl (replaceGetAddrUser idOperand) m2 (usersOf rtti m2)
      in specializeRTTIObjectReferences_loop id' rest m3)"

definition specializeRTTIObjectReferences ::
    "(inst_ref \<times> inst_ref) list \<Rightarrow> IRModule \<Rightarrow> IRModule" where
  "specializeRTTIObjectReferences mapTypeToRTTIObject m =
     specializeRTTIObjectReferences_loop 0 mapTypeToRTTIObject m"

text \<open>
  Lines 42-63: every \<open>WitnessTableIDType\<close> and \<open>RTTIHandleType\<close> instruction has its uses
  redirected to the \<open>UInt64\<close> type and is then removed.
\<close>

definition isRTTIHandleTypeOp :: "IROp \<Rightarrow> bool" where
  "isRTTIHandleTypeOp o' = (o' = kIROp_WitnessTableIDType \<or> o' = kIROp_RTTIHandleType)"

definition cleanUpRTTIHandleTypes :: "IRModule \<Rightarrow> IRModule" where
  "cleanUpRTTIHandleTypes m =
     (let instsToRemove = map fst (filter (\<lambda>(i, inst). isRTTIHandleTypeOp (op inst)) m);
          m1 = foldl (\<lambda>m' i. let (u64, m'') = getUInt64Type i m' in replaceUsesWith i u64 m'')
                 m instsToRemove
      in foldl (\<lambda>m' i. removeAndDeallocate i m') m1 instsToRemove)"

text \<open>
  A module with two RTTI objects (10 and 11).  Each has its address taken (20, 21), and
  each address is the operand of one instruction (30, 31).
\<close>

definition two_rtti_module :: IRModule where
  "two_rtti_module =
     [(10, \<lparr>op = kIROp_RTTIObject, dataType = None, operands = [], intValue = 0\<rparr>),
      (11, \<lparr>op = kIROp_RTTIObject, dataType = None, operands = [], intValue = 0\<rparr>),
      (20, \<lparr>op = kIROp_getAddr, dataType = None, operands = [10], intValue = 0\<rparr>),
      (21, \<lparr>op = kIROp_getAddr, dataType = None, operands = [11], intValue = 0\<rparr>),
      (30, \<lparr>op = kIROp_Other, dataType = None, operands = [20], intValue = 0\<rparr>),
      (31, \<lparr>op = kIROp_Other, dataType = None, operands = [21], intValue = 0\<rparr>)]"

subsection \<open>The pipeline \<open>lowerGenerics\<close>\<close>

text \<open>
  Lines 92-167.  The passes the pipeline calls are defined in other files; what the
  pipeline itself decides is which of them run.  A pass that is handed the shared context
  can report to the diagnostic sink, so it is a function on the module and the sink's error
  count; \<open>augmentMakeExistentialInsts\<close>, \<open>constructSSA\<close> and \<open>eliminateDeadCode\<close> are handed the
  module alone.  The state records the passes that ran, in order.
\<close>

datatype stage =
    AugmentMakeExistentialInsts
  | LowerGenericFunctions
  | LowerGenericType
  | LowerExistentials
  | LowerGenericCalls
  | GenerateWitnessTableWrapperFunctions
  | GenerateAnyValueMarshallingFunctions
  | SpecializeDispatchFunctions
  | SpecializeDynamicAssociatedTypeLookup
  | SpecializeRTTIObjectReferences
  | CleanUpRTTIHandleTypes
  | CleanUpInterfaceTypes
  | ConstructSSA
  | EliminateDeadCode

record 'm lowering_state =
  irModule :: 'm
  errorCount :: nat
  executed :: "stage list"

definition runContextPass ::
    "(stage \<Rightarrow> 'm \<times> nat \<Rightarrow> 'm \<times> nat) \<Rightarrow> stage \<Rightarrow> 'm lowering_state \<Rightarrow> 'm lowering_state" where
  "runContextPass contextPass s st =
     (let (m, e) = contextPass s (irModule st, errorCount st)
      in \<lparr>irModule = m, errorCount = e, executed = executed st @ [s]\<rparr>)"

definition runModulePass ::
    "(stage \<Rightarrow> 'm \<Rightarrow> 'm) \<Rightarrow> stage \<Rightarrow> 'm lowering_state \<Rightarrow> 'm lowering_state" where
  "runModulePass modulePass s st =
     st\<lparr>irModule := modulePass s (irModule st), executed := executed st @ [s]\<rparr>"

definition specializeRTTIObjects ::
    "(stage \<Rightarrow> 'm \<times> nat \<Rightarrow> 'm \<times> nat) \<Rightarrow> 'm lowering_state \<Rightarrow> 'm lowering_state" where
  "specializeRTTIObjects contextPass st =
     (let st1 = runContextPass contextPass SpecializeDispatchFunctions st in
      if errorCount st1 \<noteq> 0 then st1 else
      let st2 = runContextPass contextPass SpecializeDynamicAssociatedTypeLookup st1 in
      if errorCount st2 \<noteq> 0 then st2 else
      let st3 = runContextPass contextPass SpecializeRTTIObjectReferences st2;
          st4 = runContextPass contextPass CleanUpRTTIHandleTypes st3
      in runContextPass contextPass CleanUpInterfaceTypes st4)"

definition lowerGenerics ::
    "(stage \<Rightarrow> 'm \<Rightarrow> 'm) \<Rightarrow> (stage \<Rightarrow> 'm \<times> nat \<Rightarrow> 'm \<times> nat) \<Rightarrow> 'm lowering_state
      \<Rightarrow> 'm lowering_state" where
  "lowerGenerics modulePass contextPass st =
     (let st0 = runModulePass modulePass AugmentMakeExistentialInsts st;
          st1 = runContextPass contextPass LowerGenericFunctions st0 in
      if errorCount st1 \<noteq> 0 then st1 else
      let st2 = runContextPass contextPass LowerGenericType st1 in
      if errorCount st2 \<noteq> 0 then st2 else
      let st3 = runContextPass contextPass LowerExistentials st2 in
      if errorCount st3 \<noteq> 0 then st3 else
      let st4 = runContextPass contextPass LowerGenericCalls st3 in
      if errorCount st4 \<noteq> 0 then st4 else
      let st5 = runContextPass contextPass GenerateWitnessTableWrapperFunctions st4 in
      if errorCount st5 \<noteq> 0 then st5 else
      let st6 = runContextPass contextPass GenerateAnyValueMarshallingFunctions st5 in
      if errorCount st6 \<noteq> 0 then st6 else
      let st7 = specializeRTTIObjects contextPass st6;
          st8 = runModulePass modulePass ConstructSSA st7
      in runModulePass modulePass EliminateDeadCode st8)"

text \<open>
  Passes that leave the module alone, of which \<open>specializeDispatchFunctions\<close> reports one
  error; and the state a request starts from.
\<close>

definition failing_dispatch_pass :: "stage \<Rightarrow> unit \<times> nat \<Rightarrow> unit \<times> nat" where
  "failing_dispatch_pass s = (\<lambda>(m, e). if s = SpecializeDispatchFunctions then (m, e + 1) else (m, e))"

definition initial_lowering_state :: "unit lowering_state" where
  "initial_lowering_state = \<lparr>irModule = (), errorCount = 0, executed = []\<rparr>"

section \<open>Structured control flow (emit.cpp, \<open>emitIRStmtsForBlocks\<close>)\<close>

text \<open>
  A function body is a graph of blocks.  A block is known by its address; it has
  parameters, instructions, and a last instruction, the terminator, whose operands name
  the blocks control goes to.  The IR classes are declared outside the files at hand; the
  terminators are the opcodes the region walk switches on, with the operands it reads.
  \<open>kIROp_loop\<close> carries the target (header) block, the break block and the continue block,
  then the arguments for the header's parameters, and the loop-control decoration if any.
\<close>

type_synonym block_ref = nat
type_synonym value_ref = nat

datatype CodeGenTarget = CodeGenTarget_HLSL | CodeGenTarget_GLSL | CodeGenTarget_Other

datatype IRLoopControl = kIRLoopControl_Unroll | kIRLoopControl_Other

datatype Terminator =
    kIROp_unreachable
  | kIROp_ReturnVal
  | kIROp_ReturnVoid
  | kIROp_discard
  | kIROp_ifElse value_ref block_ref block_ref block_ref
  | kIROp_loop block_ref block_ref block_ref "value_ref list" "IRLoopControl option"
  | kIROp_unconditionalBranch block_ref "value_ref list"
  | kIROp_conditionalBranch
  | kIROp_switch value_ref block_ref block_ref "(value_ref \<times> block_ref) list"
  | kIROp_otherTerminator

record IRBlock =
  params :: "value_ref list"
  insts :: "value_ref list"
  terminatorInst :: value_ref
  sourceLoc :: nat
  terminator :: Terminator

type_synonym IRBlocks = "block_ref \<Rightarrow> IRBlock"

text \<open>
  The label stack: its top entry first, the empty list for \<open>nullptr\<close>.
\<close>

datatype LabelOp = kLabelOp_break | kLabelOp_continue

type_synonym LabelStack = "(block_ref \<times> LabelOp) list"

text \<open>
  The walk decides what to write from the blocks and the label stack alone, and hands
  the text to the writer.  Its output is given as the sequence of calls it makes:
  \<open>emit\<close> of a text, \<open>indent\<close>, \<open>dedent\<close>, \<open>advanceToSourceLocation\<close>, and the calls
  \<open>emitIRInst\<close> and \<open>emitIROperand\<close> that print one instruction or operand.
  \<open>SLANG_UNEXPECTED\<close> aborts the walk.  The block graph may have cycles the label stack
  does not cut, so the walk is given fuel: one unit per block visited on a path.
\<close>

datatype stmt_event =
    EmitText string
  | Indent
  | Dedent
  | AdvanceToSourceLocation nat
  | EmitIRInst value_ref
  | EmitIROperand value_ref

datatype walk_error = UnexpectedTerminator | WalkFuelExhausted

type_synonym walk_result = "walk_error + stmt_event list"

text \<open>Two calls one after the other: the second writes after the first, unless one aborts.\<close>

fun then_emit :: "walk_result \<Rightarrow> walk_result \<Rightarrow> walk_result" where
  "then_emit (Inl e) r = Inl e"
| "then_emit (Inr a) (Inl e) = Inl e"
| "then_emit (Inr a) (Inr b) = Inr (a @ b)"

text \<open>
  \<open>emitPhiVarAssignments\<close> (lines 3444-3468): one assignment per parameter of the target
  block, as long as there are arguments.
\<close>

definition emitPhiVarAssignments :: "value_ref list \<Rightarrow> IRBlock \<Rightarrow> stmt_event list" where
  "emitPhiVarAssignments args targetBlock =
     concat (map (\<lambda>(pp, arg). [EmitIROperand pp, EmitText '' = '', EmitIROperand arg,
                                EmitText ('';'' @ [CHR 0x0A])])
                 (zip (params targetBlock) args))"

text \<open>
  The search of the active labels (lines 3534-3558): the first entry for the block decides
  the keyword.
\<close>

fun findLabel :: "LabelStack \<Rightarrow> block_ref \<Rightarrow> LabelOp option" where
  "findLabel [] block = None"
| "findLabel ((b, labelOp) # parent) block =
     (if b = block then Some labelOp else findLabel parent block)"

definition emitLabelOp :: "LabelOp \<Rightarrow> stmt_event list" where
  "emitLabelOp labelOp =
     (case labelOp of
        kLabelOp_break \<Rightarrow> [EmitText (''break;'' @ [CHR 0x0A])]
      | kLabelOp_continue \<Rightarrow> [EmitText (''continue;'' @ [CHR 0x0A])])"

text \<open>
  The inner loop of the \<open>switch\<close> case (lines 3873-3888): a \<open>case\<close> label for the case at
  hand and for each following case with the same target block.  It returns the cases
  left, from \<open>caseIndex\<close> on.
\<close>

fun emitCaseLabels ::
    "block_ref \<Rightarrow> value_ref \<Rightarrow> (value_ref \<times> block_ref) list
      \<Rightarrow> stmt_event list \<times> (value_ref \<times> block_ref) list" where
  "emitCaseLabels caseLabel caseVal [] =
     ([EmitText ''case '', EmitIROperand caseVal, EmitText ('':'' @ [CHR 0x0A])], [])"
| "emitCaseLabels caseLabel caseVal ((nextCaseVal, nextCaseLabel) # rest) =
     (if nextCaseLabel \<noteq> caseLabel then
        ([EmitText ''case '', EmitIROperand caseVal, EmitText ('':'' @ [CHR 0x0A])],
         (nextCaseVal, nextCaseLabel) # rest)
      else
        (let (labels, left) = emitCaseLabels caseLabel nextCaseVal rest
         in ([EmitText ''case '', EmitIROperand caseVal, EmitText ('':'' @ [CHR 0x0A])] @ labels,
             left)))"

lemma emitCaseLabels_length [termination_simp]:
  "length (snd (emitCaseLabels caseLabel caseVal cases)) \<le> length cases"
proof (induction cases arbitrary: caseVal)
  case Nil
  show ?case by simp
next
  case (Cons c cases)
  show ?case
    using Cons.IH [of "fst c"] by (cases c) (auto split: prod.splits)
qed

definition caseEndLabel :: "(value_ref \<times> block_ref) list \<Rightarrow> block_ref option" where
  "caseEndLabel left = (case left of [] \<Rightarrow> None | (v, l) # rest \<Rightarrow> Some l)"

text \<open>
  \<open>emitIRStmtsForBlocks\<close> (lines 3494-3966).  \<open>emitIRStmtsForBlocks_while\<close> is its loop
  \<open>while(block != end)\<close>, with the variables \<open>useLabels\<close> and \<open>block\<close> the loop changes;
  each step ends with \<open>useLabels = labels; if (block == begin) return;\<close>.
  \<open>emitSwitchCases\<close> is the loop over the cases of a \<open>switch\<close> with what follows it in
  that branch: the \<open>default\<close> group, when no case has handled the default label.
\<close>

function (sequential)
  emitIRStmtsForBlocks ::
    "nat \<Rightarrow> CodeGenTarget \<Rightarrow> IRBlocks \<Rightarrow> block_ref \<Rightarrow> block_ref option
      \<Rightarrow> LabelStack \<Rightarrow> LabelStack \<Rightarrow> walk_result"
  and emitIRStmtsForBlocks_while ::
    "nat \<Rightarrow> CodeGenTarget \<Rightarrow> IRBlocks \<Rightarrow> block_ref \<Rightarrow> block_ref option
      \<Rightarrow> LabelStack \<Rightarrow> LabelStack \<Rightarrow> block_ref \<Rightarrow> walk_result"
  and emitSwitchCases ::
    "nat \<Rightarrow> CodeGenTarget \<Rightarrow> IRBlocks \<Rightarrow> block_ref \<Rightarrow> block_ref \<Rightarrow> LabelStack
      \<Rightarrow> (value_ref \<times> block_ref) list \<Rightarrow> bool \<Rightarrow> walk_result"
where
  "emitIRStmtsForBlocks fuel target blocks begin end initialLabels labels =
     emitIRStmtsForBlocks_while fuel target blocks begin end
       (if labels = [] then initialLabels else labels) initialLabels begin"
| "emitIRStmtsForBlocks_while 0 target blocks begin end labels useLabels block =
     (if Some block = end then Inr [] else Inl WalkFuelExhausted)"
| "emitIRStmtsForBlocks_while (Suc fuel) target blocks begin end labels useLabels block =
     (if Some block = end then Inr []
      else
        (case findLabel useLabels block of
           Some labelOp \<Rightarrow> Inr (emitLabelOp labelOp)
         | None \<Rightarrow>
             then_emit
               (Inr (map EmitIRInst (insts (blocks block))
                     @ [AdvanceToSourceLocation (sourceLoc (blocks block))]))
               (case terminator (blocks block) of
                  kIROp_unreachable \<Rightarrow> Inr []
                | kIROp_ReturnVal \<Rightarrow> Inr [EmitIRInst (terminatorInst (blocks block))]
                | kIROp_ReturnVoid \<Rightarrow> Inr [EmitIRInst (terminatorInst (blocks block))]
                | kIROp_discard \<Rightarrow> Inr [EmitIRInst (terminatorInst (blocks block))]
                | kIROp_ifElse condition trueBlock falseBlock afterBlock \<Rightarrow>
                    then_emit
                      (Inr [EmitText ''if('', EmitIROperand condition,
                            EmitText ('')'' @ [CHR 0x0A] @ ''{'' @ [CHR 0x0A]), Indent])
                   (then_emit
                      (emitIRStmtsForBlocks fuel target blocks trueBlock (Some afterBlock) labels [])
                   (then_emit
                      (Inr [Dedent, EmitText (''}'' @ [CHR 0x0A])])
                   (then_emit
                      (if falseBlock \<noteq> afterBlock then
                         then_emit
                           (Inr [EmitText (''else'' @ [CHR 0x0A] @ ''{'' @ [CHR 0x0A]), Indent])
                        (then_emit
                           (emitIRStmtsForBlocks fuel target blocks falseBlock (Some afterBlock)
                              labels [])
                           (Inr [Dedent, EmitText (''}'' @ [CHR 0x0A])]))
                       else Inr [])
                      (if afterBlock = begin then Inr []
                       else emitIRStmtsForBlocks_while fuel target blocks begin end labels labels
                              afterBlock))))
                | kIROp_loop targetBlock breakBlock continueBlock args loopControl \<Rightarrow>
                    then_emit
                      (Inr (emitPhiVarAssignments args (blocks targetBlock)
                            @ (if loopControl = Some kIRLoopControl_Unroll
                                  \<and> target = CodeGenTarget_HLSL
                               then [EmitText (''[unroll]'' @ [CHR 0x0A])] else [])
                            @ [EmitText (''for(;;)'' @ [CHR 0x0A] @ ''{'' @ [CHR 0x0A]), Indent]))
                   (then_emit
                      (emitIRStmtsForBlocks fuel target blocks targetBlock None
                         ((breakBlock, kLabelOp_break) # labels)
                         ((targetBlock, kLabelOp_continue) # (breakBlock, kLabelOp_break) # labels))
                   (then_emit
                      (Inr [Dedent, EmitText (''}'' @ [CHR 0x0A])])
                      (if breakBlock = begin then Inr []
                       else emitIRStmtsForBlocks_while fuel target blocks begin end labels labels
                              breakBlock)))
                | kIROp_unconditionalBranch targetBlock args \<Rightarrow>
                    then_emit
                      (Inr (emitPhiVarAssignments args (blocks targetBlock)))
                      (if targetBlock = begin then Inr []
                       else emitIRStmtsForBlocks_while fuel target blocks begin end labels labels
                              targetBlock)
                | kIROp_conditionalBranch \<Rightarrow> Inl UnexpectedTerminator
                | kIROp_switch conditionVal breakLabel defaultLabel cases \<Rightarrow>
                    then_emit
                      (Inr [EmitText ''switch('', EmitIROperand conditionVal,
                            EmitText ('')'' @ [CHR 0x0A] @ ''{'' @ [CHR 0x0A])])
                   (then_emit
                      (emitSwitchCases fuel target blocks breakLabel defaultLabel
                         ((breakLabel, kLabelOp_break) # labels) cases (defaultLabel = breakLabel))
                   (then_emit
                      (Inr [EmitText (''}'' @ [CHR 0x0A])])
                      (if breakLabel = begin then Inr []
                       else emitIRStmtsForBlocks_while fuel target blocks begin end labels labels
                              breakLabel)))
                | kIROp_otherTerminator \<Rightarrow> Inl UnexpectedTerminator)))"
| "emitSwitchCases fuel target blocks breakLabel defaultLabel subLabels [] defaultLabelHandled =
     (if \<not> defaultLabelHandled then
        then_emit
          (Inr [EmitText (''default:'' @ [CHR 0x0A]), Indent, EmitText (''{'' @ [CHR 0x0A]), Indent])
       (then_emit
          (emitIRStmtsForBlocks fuel target blocks defaultLabel (Some breakLabel) subLabels [])
          (Inr [EmitText (''break;'' @ [CHR 0x0A]), Dedent, EmitText (''}'' @ [CHR 0x0A]), Dedent]))
      else Inr [])"
| "emitSwitchCases fuel target blocks breakLabel defaultLabel subLabels ((caseVal, caseLabel) # rest)
       defaultLabelHandled =
     then_emit
       (Inr (fst (emitCaseLabels caseLabel caseVal rest)
             @ (if caseLabel = defaultLabel then [EmitText (''default:'' @ [CHR 0x0A])] else [])
             @ [Indent, EmitText (''{'' @ [CHR 0x0A]), Indent]))
    (then_emit
       (emitIRStmtsForBlocks fuel target blocks caseLabel
          (caseEndLabel (snd (emitCaseLabels caseLabel caseVal rest))) subLabels [])
    (then_emit
       (Inr [Dedent, EmitText (''}'' @ [CHR 0x0A]), Dedent])
       (emitSwitchCases fuel target blocks breakLabel defaultLabel subLabels
          (snd (emitCaseLabels caseLabel caseVal rest))
          (defaultLabelHandled \<or> caseLabel = defaultLabel))))"
  by pat_completeness auto

termination
  by (relation "inv_image (less_than <*lex*> less_than <*lex*> less_than)
        (\<lambda>x. case x of
           Inl (fuel, target, blocks, begin, end, initialLabels, labels) \<Rightarrow> (fuel, 1::nat, 0::nat)
         | Inr (Inl (fuel, target, blocks, begin, end, labels, useLabels, block)) \<Rightarrow> (fuel, 0, 0)
         | Inr (Inr (fuel, target, blocks, breakLabel, defaultLabel, subLabels, cases, handled)) \<Rightarrow>
             (fuel, 2, length cases))")
     (auto simp add: less_Suc_eq_le emitCaseLabels_length)

declare emitIRStmtsForBlocks.simps [simp del] emitIRStmtsForBlocks_while.simps [simp del]
  emitSwitchCases.simps [simp del]

subsection \<open>Case groups, as the specification words them\<close>

text \<open>
  The specification speaks of cases sharing a target block being grouped under consecutive
  \<open>case\<close> labels.  \<open>caseGroups\<close> cuts the case table into its maximal runs of consecutive
  cases with one target; \<open>emitCaseGroups\<close> writes, for each run, its labels, a \<open>default:\<close>
  label when the run's target is the default target, and one body, which ends where the
  next run begins.  They are compared with \<open>emitSwitchCases\<close> below.
\<close>

function caseGroups :: "(value_ref \<times> block_ref) list \<Rightarrow> (value_ref list \<times> block_ref) list" where
  "caseGroups [] = []"
| "caseGroups ((v, l) # cs) =
     (v # map fst (takeWhile (\<lambda>c. snd c = l) cs), l) # caseGroups (dropWhile (\<lambda>c. snd c = l) cs)"
  by pat_completeness auto

termination
  by (relation "measure length") (auto simp add: less_Suc_eq_le length_dropWhile_le)



subsection \<open>Example functions\<close>

text \<open>A block graph given by a table; an address outside the table is a block that ends in \<open>unreachable\<close>.\<close>

definition blocksOf :: "(block_ref \<times> IRBlock) list \<Rightarrow> IRBlocks" where
  "blocksOf table b =
     (case map_of table b of
        Some blk \<Rightarrow> blk
      | None \<Rightarrow> \<lparr>params = [], insts = [], terminatorInst = 0, sourceLoc = 0,
                   terminator = kIROp_unreachable\<rparr>)"


text \<open>
  Two nested loops.  Block 10 enters the outer loop (header 11, break block 19, continue
  block 18); the outer header enters the inner loop (header 13, break block 17, continue
  block 16).  The inner header tests a condition; block 14 branches back to the inner
  header, block 15 leaves the inner loop; block 17 branches back to the outer header.
\<close>

definition nested_loops_example :: IRBlocks where
  "nested_loops_example = blocksOf
     [(10, \<lparr>params = [], insts = [], terminatorInst = 1000, sourceLoc = 0,
           terminator = kIROp_loop 11 19 18 [] None\<rparr>),
      (11, \<lparr>params = [], insts = [110], terminatorInst = 1001, sourceLoc = 0,
           terminator = kIROp_loop 13 17 16 [] None\<rparr>),
      (13, \<lparr>params = [], insts = [130], terminatorInst = 1003, sourceLoc = 0,
           terminator = kIROp_ifElse 131 14 15 15\<rparr>),
      (14, \<lparr>params = [], insts = [140], terminatorInst = 1004, sourceLoc = 0,
           terminator = kIROp_unconditionalBranch 13 []\<rparr>),
      (15, \<lparr>params = [], insts = [150], terminatorInst = 1005, sourceLoc = 0,
           terminator = kIROp_unconditionalBranch 17 []\<rparr>),
      (17, \<lparr>params = [], insts = [170], terminatorInst = 1007, sourceLoc = 0,
           terminator = kIROp_unconditionalBranch 11 []\<rparr>),
      (19, \<lparr>params = [], insts = [], terminatorInst = 1009, sourceLoc = 0,
           terminator = kIROp_ReturnVoid\<rparr>)]"

section \<open>Module emission: used types, forward declarations, globals (emit.cpp)\<close>

subsection \<open>Types and declarations\<close>

text \<open>
  The AST classes \<open>Type\<close>, \<open>Decl\<close> and \<open>DeclRef\<close> are declared outside the files at hand.
  A type is one of the kinds \<open>emitIRUsedType\<close> tells apart with \<open>As<...>\<close>, in the order it
  asks; \<open>OutType\<close> and \<open>InOutType\<close>, which \<open>emitIRParamType\<close> asks for, are pointer-like
  types.  A declaration carries what the emitter reads of it: its mangled name, whether it
  is a \<open>StructDecl\<close>, its modifiers, and its fields, each with its type.  A struct holds
  its fields by value, so the declarations reached from a type form a finite tree; two
  places that name the same struct hold equal declarations.
\<close>

datatype PtrKind = OutType | InOutType | OtherPtrType

datatype Type =
    BasicExpressionType bool
  | VectorExpressionType
  | MatrixExpressionType
  | ArrayExpressionType Type
  | TextureTypeBase Type
  | BuiltinGenericType Type
  | PtrTypeBase PtrKind Type
  | SamplerStateType
  | DeclRefType Decl
  | OtherType
and Decl =
    Decl (mangledName: string) (isStructDecl: bool) (hasBuiltinTypeModifier: bool)
         (hasMagicTypeModifier: bool) (hasBuiltinModifier: bool) (structFields: "Field list")
and Field =
    Field (fieldName: string) (hasHLSLStaticModifier: bool) (fieldType: Type)

text \<open>\<open>BasicExpressionType True\<close> is \<open>void\<close>, the one basic type the emitter singles out.\<close>

definition isVoidType :: "Type \<Rightarrow> bool" where
  "isVoidType t = (t = BasicExpressionType True)"

subsection \<open>The emit context and the calls it records\<close>

text \<open>
  At this level the output is the sequence of calls made to the writer and to the
  printers of names, types, modifiers and semantics, of function bodies and of global
  variables, which are defined elsewhere in emit.cpp and do not touch \<open>irDeclsVisited\<close>.
\<close>

datatype decl_event =
    D_Emit string
  | D_indent
  | D_dedent
  | D_EmitDeclRef Decl
  | D_emitIRType Type string
  | D_emitInterpolationModifiers Field
  | D_EmitSemantics Field
  | D_emitIRSimpleFunc nat
  | D_emitIRGlobalVar nat
  | D_emitIRGlobalConstant nat
  | D_emitIRVar nat

record EmitContext =
  target :: CodeGenTarget
  irDeclsVisited :: "string set"
  written :: "decl_event list"

definition emitD :: "EmitContext \<Rightarrow> decl_event list \<Rightarrow> EmitContext" where
  "emitD c evs = c\<lparr>written := written c @ evs\<rparr>"

subsection \<open>\<open>ensureStructDecl\<close> and \<open>emitIRUsedType\<close>\<close>

text \<open>
  The second loop of \<open>ensureStructDecl\<close> (lines 5323-5344): the fields of the struct body.
\<close>

definition emitStructField :: "CodeGenTarget \<Rightarrow> Field \<Rightarrow> decl_event list" where
  "emitStructField tgt ff =
     (if hasHLSLStaticModifier ff then []
      else if isVoidType (fieldType ff) then []
      else (if tgt \<noteq> CodeGenTarget_GLSL then [D_emitInterpolationModifiers ff] else [])
           @ [D_emitIRType (fieldType ff) (fieldName ff), D_EmitSemantics ff,
              D_Emit ('';'' @ [CHR 0x0A])])"

definition emitStructDeclText :: "CodeGenTarget \<Rightarrow> Decl \<Rightarrow> decl_event list" where
  "emitStructDeclText tgt declRef =
     [D_Emit ([CHR 0x0A] @ ''struct ''), D_EmitDeclRef declRef,
      D_Emit ([CHR 0x0A] @ ''{'' @ [CHR 0x0A]), D_indent]
     @ concat (map (emitStructField tgt) (structFields declRef))
     @ [D_dedent, D_Emit (''};'' @ [CHR 0x0A])]"

text \<open>
  Lines 5290-5407.  \<open>emitIRUsedFieldTypes\<close> is the first loop of \<open>ensureStructDecl\<close>, over
  the fields of the struct.
\<close>

function (sequential) emitIRUsedType :: "EmitContext \<Rightarrow> Type \<Rightarrow> EmitContext"
  and emitIRUsedDeclRef :: "EmitContext \<Rightarrow> Decl \<Rightarrow> EmitContext"
  and ensureStructDecl :: "EmitContext \<Rightarrow> Decl \<Rightarrow> EmitContext"
  and emitIRUsedFieldTypes :: "EmitContext \<Rightarrow> Field list \<Rightarrow> EmitContext"
where
  "emitIRUsedType ctx (BasicExpressionType v) = ctx"
| "emitIRUsedType ctx VectorExpressionType = ctx"
| "emitIRUsedType ctx MatrixExpressionType = ctx"
| "emitIRUsedType ctx (ArrayExpressionType baseType) = emitIRUsedType ctx baseType"
| "emitIRUsedType ctx (TextureTypeBase elementType) = emitIRUsedType ctx elementType"
| "emitIRUsedType ctx (BuiltinGenericType elementType) = emitIRUsedType ctx elementType"
| "emitIRUsedType ctx (PtrTypeBase k valueType) = emitIRUsedType ctx valueType"
| "emitIRUsedType ctx SamplerStateType = ctx"
| "emitIRUsedType ctx (DeclRefType declRef) = emitIRUsedDeclRef ctx declRef"
| "emitIRUsedType ctx OtherType = ctx"
| "emitIRUsedDeclRef ctx (Decl name isStruct builtinType magicType builtin fs) =
     (if builtinType \<or> magicType then ctx
      else if isStruct then ensureStructDecl ctx (Decl name isStruct builtinType magicType builtin fs)
      else ctx)"
| "ensureStructDecl ctx (Decl name isStruct builtinType magicType builtin fs) =
     (if name \<in> irDeclsVisited ctx then ctx
      else
        (let ctx1 = ctx\<lparr>irDeclsVisited := insert name (irDeclsVisited ctx)\<rparr>;
             ctx2 = emitIRUsedFieldTypes ctx1 fs
         in if builtin then ctx2
            else emitD ctx2
                   (emitStructDeclText (target ctx2)
                      (Decl name isStruct builtinType magicType builtin fs))))"
| "emitIRUsedFieldTypes ctx [] = ctx"
| "emitIRUsedFieldTypes ctx (Field name isStatic t # rest) =
     emitIRUsedFieldTypes (if isStatic then ctx else emitIRUsedType ctx t) rest"
  by pat_completeness auto

termination
  by (relation "inv_image (less_than <*lex*> less_than)
        (\<lambda>x. case x of
           Inl (Inl (ctx, t)) \<Rightarrow> (size t, 0::nat)
         | Inl (Inr (ctx, d)) \<Rightarrow> (size d, 1)
         | Inr (Inl (ctx, d)) \<Rightarrow> (size d, 0)
         | Inr (Inr (ctx, fs)) \<Rightarrow> (size_list size fs, 0))")
     auto

subsection \<open>The module\<close>

text \<open>
  A global instruction of the module, with what the emitter reads of it.  A global value
  with code has blocks; of a block, \<open>emitIRUsedTypesForGlobalValueWithCode\<close> reads the types
  of its parameters and of its instructions.  A function is a definition when it has a
  block, is generic when \<open>getGenericDecl()\<close> is not null, and is an entry point when
  \<open>asEntryPoint\<close> finds an entry-point layout on it.
\<close>

record IRCodeBlock =
  paramTypes :: "Type list"
  instTypes :: "Type list"

record IRFunc =
  funcRef :: nat
  irFuncName :: string
  hasGenericDecl :: bool
  isEntryPoint :: bool
  resultType :: Type
  funcParamTypes :: "Type list"
  funcBlocks :: "IRCodeBlock list"

record IRGlobalVar =
  globalRef :: nat
  globalType :: Type
  globalBlocks :: "IRCodeBlock list"

datatype IRGlobalInst =
    kIROp_Func IRFunc
  | kIROp_global_var IRGlobalVar
  | kIROp_global_constant IRGlobalVar
  | kIROp_Var nat Type
  | kIROp_OtherGlobal Type

definition isDefinition :: "IRFunc \<Rightarrow> bool" where
  "isDefinition func = (funcBlocks func \<noteq> [])"

definition isTargetIntrinsic :: "IRFunc \<Rightarrow> bool" where
  "isTargetIntrinsic func = (\<not> isDefinition func)"

text \<open>Lines 5409-5482: the types used by the module's global instructions.\<close>

definition emitIRUsedTypesForGlobalValueWithCode ::
    "EmitContext \<Rightarrow> IRCodeBlock list \<Rightarrow> EmitContext" where
  "emitIRUsedTypesForGlobalValueWithCode ctx bbs =
     foldl (\<lambda>c bb. foldl emitIRUsedType (foldl emitIRUsedType c (paramTypes bb)) (instTypes bb))
       ctx bbs"

definition emitIRUsedTypesForValue :: "EmitContext \<Rightarrow> IRGlobalInst \<Rightarrow> EmitContext" where
  "emitIRUsedTypesForValue ctx v =
     (case v of
        kIROp_Func irFunc \<Rightarrow>
          if hasGenericDecl irFunc then ctx
          else emitIRUsedTypesForGlobalValueWithCode
                 (emitIRUsedType ctx (resultType irFunc)) (funcBlocks irFunc)
      | kIROp_global_var irGlobal \<Rightarrow>
          emitIRUsedTypesForGlobalValueWithCode
            (emitIRUsedType ctx (globalType irGlobal)) (globalBlocks irGlobal)
      | kIROp_global_constant irGlobal \<Rightarrow>
          emitIRUsedTypesForGlobalValueWithCode
            (emitIRUsedType ctx (globalType irGlobal)) (globalBlocks irGlobal)
      | kIROp_Var r t \<Rightarrow> emitIRUsedType ctx t
      | kIROp_OtherGlobal t \<Rightarrow> emitIRUsedType ctx t)"

definition emitIRUsedTypesForModule :: "EmitContext \<Rightarrow> IRGlobalInst list \<Rightarrow> EmitContext" where
  "emitIRUsedTypesForModule ctx globalInsts = foldl emitIRUsedTypesForValue ctx globalInsts"

text \<open>
  \<open>emitIRParamType\<close> and \<open>emitIRFuncDecl\<close> (lines 4303-4374).  \<open>emitIRFuncParams\<close> is the
  loop over the parameter types, with the index \<open>pp\<close>.
\<close>

definition emitIRParamType :: "Type \<Rightarrow> string \<Rightarrow> decl_event list" where
  "emitIRParamType t name =
     (case t of
        PtrTypeBase OutType valueType \<Rightarrow> [D_Emit ''out '', D_emitIRType valueType name]
      | PtrTypeBase InOutType valueType \<Rightarrow> [D_Emit ''inout '', D_emitIRType valueType name]
      | _ \<Rightarrow> [D_emitIRType t name])"

fun emitIRFuncParams :: "nat \<Rightarrow> Type list \<Rightarrow> decl_event list" where
  "emitIRFuncParams pp [] = []"
| "emitIRFuncParams pp (paramType # rest) =
     (if pp \<noteq> 0 then [D_Emit '', ''] else [])
     @ emitIRParamType paramType (''_'' @ decimal pp)
     @ emitIRFuncParams (Suc pp) rest"

definition emitIRFuncDecl :: "EmitContext \<Rightarrow> IRFunc \<Rightarrow> EmitContext" where
  "emitIRFuncDecl ctx func =
     (if hasGenericDecl func then ctx
      else if isTargetIntrinsic func then ctx
      else if isEntryPoint func then ctx
      else emitD ctx
             ([D_emitIRType (resultType func) (irFuncName func), D_Emit ''('']
              @ emitIRFuncParams 0 (funcParamTypes func)
              @ [D_Emit ('');'' @ [CHR 0x0A])]))"

text \<open>\<open>emitIRFunc\<close> and \<open>emitIRGlobalInst\<close> (lines 4441-4465 and 5263-5288).\<close>

definition emitIRFunc :: "EmitContext \<Rightarrow> IRFunc \<Rightarrow> EmitContext" where
  "emitIRFunc ctx func =
     (if hasGenericDecl func then ctx
      else if \<not> isDefinition func then
        (if isTargetIntrinsic func then ctx else emitIRFuncDecl ctx func)
      else emitD ctx [D_emitIRSimpleFunc (funcRef func)])"

definition emitIRGlobalInst :: "EmitContext \<Rightarrow> IRGlobalInst \<Rightarrow> EmitContext" where
  "emitIRGlobalInst ctx inst =
     (case inst of
        kIROp_Func func \<Rightarrow> emitIRFunc ctx func
      | kIROp_global_var v \<Rightarrow> emitD ctx [D_emitIRGlobalVar (globalRef v)]
      | kIROp_global_constant v \<Rightarrow> emitD ctx [D_emitIRGlobalConstant (globalRef v)]
      | kIROp_Var r t \<Rightarrow> emitD ctx [D_emitIRVar r]
      | kIROp_OtherGlobal t \<Rightarrow> ctx)"

text \<open>\<open>emitIRModule\<close> (lines 5484-5506).\<close>

definition emitIRFuncDecls :: "EmitContext \<Rightarrow> IRGlobalInst list \<Rightarrow> EmitContext" where
  "emitIRFuncDecls ctx globalInsts =
     foldl (\<lambda>c ii. case ii of kIROp_Func func \<Rightarrow> emitIRFuncDecl c func | _ \<Rightarrow> c) ctx globalInsts"

definition emitIRModule :: "EmitContext \<Rightarrow> IRGlobalInst list \<Rightarrow> EmitContext" where
  "emitIRModule ctx globalInsts =
     foldl emitIRGlobalInst
       (emitIRFuncDecls (emitIRUsedTypesForModule ctx globalInsts) globalInsts) globalInsts"

definition initialEmitContext :: "CodeGenTarget \<Rightarrow> EmitContext" where
  "initialEmitContext tgt = \<lparr>target = tgt, irDeclsVisited = {}, written = []\<rparr>"

subsection \<open>Reading struct declarations off the output\<close>

text \<open>
  A struct declaration is written by \<open>ensureStructDecl\<close> alone, and its name by the one
  call of \<open>EmitDeclRef\<close> that follows \<open>Emit("\nstruct ")\<close>; nothing else at this level
  calls \<open>EmitDeclRef\<close>.  \<open>structDecls\<close> lists the structs declared in an output, in order.
\<close>

fun structDecls :: "decl_event list \<Rightarrow> Decl list" where
  "structDecls [] = []"
| "structDecls (D_EmitDeclRef d # evs) = d # structDecls evs"
| "structDecls (e # evs) = structDecls evs"

text \<open>
  The struct that \<open>emitIRUsedType\<close> hands to \<open>ensureStructDecl\<close> for a type, if any, and the
  structs it hands over for the fields of a struct: the field types of the struct, as
  far as declarations go.
\<close>

fun usedStructDecl :: "Type \<Rightarrow> Decl option" where
  "usedStructDecl (ArrayExpressionType baseType) = usedStructDecl baseType"
| "usedStructDecl (TextureTypeBase elementType) = usedStructDecl elementType"
| "usedStructDecl (BuiltinGenericType elementType) = usedStructDecl elementType"
| "usedStructDecl (PtrTypeBase k valueType) = usedStructDecl valueType"
| "usedStructDecl (DeclRefType d) =
     (if hasBuiltinTypeModifier d \<or> hasMagicTypeModifier d then None
      else if isStructDecl d then Some d else None)"
| "usedStructDecl t = None"

fun fieldStructsOf :: "Field list \<Rightarrow> Decl list" where
  "fieldStructsOf [] = []"
| "fieldStructsOf (Field name isStatic t # rest) =
     (if isStatic then fieldStructsOf rest
      else (case usedStructDecl t of
              None \<Rightarrow> fieldStructsOf rest
            | Some d \<Rightarrow> d # fieldStructsOf rest))"

definition fieldStructs :: "Decl \<Rightarrow> Decl list" where
  "fieldStructs d = fieldStructsOf (structFields d)"

text \<open>
  In a list of declared structs, no struct is followed by the declaration of one of its
  field types.
\<close>

fun fieldsFirst :: "Decl list \<Rightarrow> bool" where
  "fieldsFirst [] = True"
| "fieldsFirst (s # later) =
     (list_all (\<lambda>f. mangledName f \<notin> set (map mangledName later)) (fieldStructs s)
      \<and> fieldsFirst later)"

text \<open>
  In a list of declared structs, read after the structs \<open>earlier\<close> have been declared,
  every struct stands after the declarations of its field types: each struct that
  \<open>emitIRUsedType\<close> hands to \<open>ensureStructDecl\<close> for a field of the struct has been
  declared by then, unless it carries the \<open>BuiltinModifier\<close>, in which case
  \<open>ensureStructDecl\<close> writes no declaration for it at all.
\<close>

fun fieldsDeclaredBefore :: "Decl list \<Rightarrow> Decl list \<Rightarrow> bool" where
  "fieldsDeclaredBefore earlier [] = True"
| "fieldsDeclaredBefore earlier (s # later) =
     (list_all (\<lambda>f. hasBuiltinModifier f \<or> f \<in> set earlier) (fieldStructs s)
      \<and> fieldsDeclaredBefore (earlier @ [s]) later)"

text \<open>
  All declarations that occur in a type, and the condition that no struct has the mangled
  name of a declaration nested in its fields (a struct does not contain itself).
\<close>

fun declsInType :: "Type \<Rightarrow> Decl list"
  and declsInDecl :: "Decl \<Rightarrow> Decl list"
  and declsInFields :: "Field list \<Rightarrow> Decl list"
where
  "declsInType (ArrayExpressionType baseType) = declsInType baseType"
| "declsInType (TextureTypeBase elementType) = declsInType elementType"
| "declsInType (BuiltinGenericType elementType) = declsInType elementType"
| "declsInType (PtrTypeBase k valueType) = declsInType valueType"
| "declsInType (DeclRefType d) = declsInDecl d"
| "declsInType t = []"
| "declsInDecl (Decl name isStruct builtinType magicType builtin fs) =
     Decl name isStruct builtinType magicType builtin fs # declsInFields fs"
| "declsInFields [] = []"
| "declsInFields (Field name isStatic t # rest) = declsInType t @ declsInFields rest"

fun noSelfNesting :: "Type \<Rightarrow> bool"
  and noSelfNestingDecl :: "Decl \<Rightarrow> bool"
  and noSelfNestingFields :: "Field list \<Rightarrow> bool"
where
  "noSelfNesting (ArrayExpressionType baseType) = noSelfNesting baseType"
| "noSelfNesting (TextureTypeBase elementType) = noSelfNesting elementType"
| "noSelfNesting (BuiltinGenericType elementType) = noSelfNesting elementType"
| "noSelfNesting (PtrTypeBase k valueType) = noSelfNesting valueType"
| "noSelfNesting (DeclRefType d) = noSelfNestingDecl d"
| "noSelfNesting t = True"
| "noSelfNestingDecl (Decl name isStruct builtinType magicType builtin fs) =
     (name \<notin> set (map mangledName (declsInFields fs)) \<and> noSelfNestingFields fs)"
| "noSelfNestingFields [] = True"
| "noSelfNestingFields (Field name isStatic t # rest) =
     (noSelfNesting t \<and> noSelfNestingFields rest)"

text \<open>The types of a module in the order \<open>emitIRUsedTypesForModule\<close> visits them.\<close>

definition codeBlockTypes :: "IRCodeBlock list \<Rightarrow> Type list" where
  "codeBlockTypes bbs = concat (map (\<lambda>bb. paramTypes bb @ instTypes bb) bbs)"

definition usedTypesOfValue :: "IRGlobalInst \<Rightarrow> Type list" where
  "usedTypesOfValue v =
     (case v of
        kIROp_Func irFunc \<Rightarrow>
          if hasGenericDecl irFunc then []
          else resultType irFunc # codeBlockTypes (funcBlocks irFunc)
      | kIROp_global_var irGlobal \<Rightarrow> globalType irGlobal # codeBlockTypes (globalBlocks irGlobal)
      | kIROp_global_constant irGlobal \<Rightarrow>
          globalType irGlobal # codeBlockTypes (globalBlocks irGlobal)
      | kIROp_Var r t \<Rightarrow> [t]
      | kIROp_OtherGlobal t \<Rightarrow> [t])"

definition usedTypesOfModule :: "IRGlobalInst list \<Rightarrow> Type list" where
  "usedTypesOfModule globalInsts = concat (map usedTypesOfValue globalInsts)"

text \<open>
  All declarations that occur in the types of a module, and the condition that the
  mangled name is the identity of a declaration: two declarations of the module with one
  mangled name are the same declaration.
\<close>

definition usedDeclsOfModule :: "IRGlobalInst list \<Rightarrow> Decl list" where
  "usedDeclsOfModule globalInsts = concat (map declsInType (usedTypesOfModule globalInsts))"

definition sameNameSameDecl :: "Decl list \<Rightarrow> bool" where
  "sameNameSameDecl ds =
     list_all (\<lambda>d. list_all (\<lambda>d'. mangledName d = mangledName d' \<longrightarrow> d = d') ds) ds"

definition usedNames :: "Type \<Rightarrow> string set" where
  "usedNames t = (case usedStructDecl t of None \<Rightarrow> {} | Some d \<Rightarrow> {mangledName d})"

subsection \<open>The invariant of the used-types pass\<close>

text \<open>
  What holds of a context between any two calls of the pass: the declared structs have
  pairwise different mangled names, all of them visited; and, in the strong form, which
  needs that no struct is nested in itself, the field types of a declared struct are
  visited and no declared struct is followed by one of its field types.
\<close>

definition emitInvariant :: "bool \<Rightarrow> EmitContext \<Rightarrow> bool" where
  "emitInvariant strong c =
     (distinct (map mangledName (structDecls (written c)))
      \<and> set (map mangledName (structDecls (written c))) \<subseteq> irDeclsVisited c
      \<and> (strong \<longrightarrow>
            (\<forall>s \<in> set (structDecls (written c)).
               set (map mangledName (fieldStructs s)) \<subseteq> irDeclsVisited c)
            \<and> fieldsFirst (structDecls (written c))))"

text \<open>
  What a call does to the context: it visits more, declares more, each new declaration
  being one of the given declarations and not visited before; it keeps the invariant and
  leaves the given names visited.
\<close>

definition stepOK ::
    "bool \<Rightarrow> EmitContext \<Rightarrow> EmitContext \<Rightarrow> Decl list \<Rightarrow> string set \<Rightarrow> bool" where
  "stepOK strong c c' U post =
     (irDeclsVisited c \<subseteq> irDeclsVisited c'
      \<and> target c' = target c
      \<and> (\<exists>ds. structDecls (written c') = structDecls (written c) @ ds
               \<and> set ds \<subseteq> set U
               \<and> (\<forall>d \<in> set ds. mangledName d \<notin> irDeclsVisited c))
      \<and> emitInvariant strong c'
      \<and> post \<subseteq> irDeclsVisited c')"

text \<open>
  What holds of a context while the structs with the names \<open>pending\<close> are being declared
  (\<open>ensureStructDecl\<close> has marked them visited and is in the loop over their fields): a
  visited name is the name of a declared struct, or pending, or the name of a struct with
  the \<open>BuiltinModifier\<close>; the declared structs are declarations of the module; and every
  declared struct stands after the declarations of its field types.
\<close>

definition pendingInvariant :: "Decl list \<Rightarrow> string set \<Rightarrow> EmitContext \<Rightarrow> bool" where
  "pendingInvariant U pending c =
     (irDeclsVisited c \<subseteq>
        mangledName ` set (structDecls (written c)) \<union> pending
        \<union> mangledName ` {b \<in> set U. hasBuiltinModifier b}
      \<and> set (structDecls (written c)) \<subseteq> set U
      \<and> fieldsDeclaredBefore [] (structDecls (written c)))"

subsection \<open>Example modules\<close>

text \<open>
  A struct \<open>Outer\<close> with two fields whose types are the struct \<open>Inner\<close> and an array of it;
  a module whose global variable and function use both structs several times.
\<close>

definition inner_struct :: Decl where
  "inner_struct = Decl ''Inner'' True False False False [Field ''x'' False (BasicExpressionType False)]"

definition outer_struct :: Decl where
  "outer_struct =
     Decl ''Outer'' True False False False
       [Field ''a'' False (DeclRefType inner_struct),
        Field ''b'' False (ArrayExpressionType (DeclRefType inner_struct))]"

definition struct_module :: "IRGlobalInst list" where
  "struct_module =
     [kIROp_global_var \<lparr>globalRef = 5, globalType = DeclRefType outer_struct, globalBlocks = []\<rparr>,
      kIROp_Func \<lparr>funcRef = 6, irFuncName = ''f'', hasGenericDecl = False, isEntryPoint = False,
                  resultType = DeclRefType outer_struct,
                  funcParamTypes = [DeclRefType inner_struct],
                  funcBlocks = [\<lparr>paramTypes = [DeclRefType inner_struct],
                                 instTypes = [DeclRefType outer_struct]\<rparr>]\<rparr>]"


declare emitIRUsedType.simps [simp del] emitIRUsedDeclRef.simps [simp del]
  ensureStructDecl.simps [simp del]

section \<open>Type legalization (legalize-types.h)\<close>

subsection \<open>Legal types, as the header declares them\<close>

text \<open>
  \<open>LegalType\<close> (lines 74-137) is a flavor, a reference-counted pointer \<open>obj\<close> to the
  object that holds the parts of a pseudo-type, and an IR type for the \<open>simple\<close> flavor.
  The objects (\<open>ImplicitDerefType\<close>, \<open>TuplePseudoType\<close>, \<open>PairPseudoType\<close>, \<open>PairInfo\<close>,
  \<open>WrappedBufferPseudoType\<close>, lines 213-326) live on the heap; an object is known by its
  address, here its index in the list of allocated objects.  Two legal types are the same
  tree by reference when their flavor, \<open>obj\<close> address and IR type agree.
  IR types are deduplicated by structure, so an \<open>IRType*\<close> is given by the type's structure.
\<close>

datatype IRType =
    IRVoidType
  | IRBasicType nat
  | IRResourceType nat
  | IRStructType nat "(nat \<times> IRType) list"
  | IRPtrLikeType nat IRType

datatype LegalFlavor =
    LegalFlavor_none
  | LegalFlavor_simple
  | LegalFlavor_implicitDeref
  | LegalFlavor_tuple
  | LegalFlavor_pair
  | LegalFlavor_wrappedBuffer

record LegalType =
  flavor :: LegalFlavor
  obj :: "nat option"
  irType :: "IRType option"

record PairInfoElement =
  key :: nat
  elementType :: LegalType
  flags :: nat
  fieldPairInfo :: "nat option"

datatype LegalObj =
    ImplicitDerefType LegalType
  | TuplePseudoType "(nat \<times> LegalType) list"
  | PairPseudoType LegalType LegalType nat
  | PairInfo "PairInfoElement list"
  | WrappedBufferPseudoType IRType LegalType

definition kFlag_hasOrdinary :: nat where "kFlag_hasOrdinary = 1"
definition kFlag_hasSpecial :: nat where "kFlag_hasSpecial = 2"

text \<open>
  \<open>IRTypeLegalizationContext\<close> (lines 470-505): the per-type cache \<open>mapTypeToLegalType\<close>,
  and the heap the legal-type objects of the run are allocated on.  Its two virtual
  functions are parameters of the run: \<open>isSpecialType\<close>, and the choice
  \<open>createLegalUniformBufferType\<close> makes between keeping the buffer object and dropping the
  indirection.
\<close>

record IRTypeLegalizationContext =
  mapTypeToLegalType :: "IRType \<rightharpoonup> LegalType"
  legalHeap :: "LegalObj list"

record LegalizationTarget =
  isSpecialType :: "IRType \<Rightarrow> bool"
  keepsBufferObject :: "nat \<Rightarrow> bool"

definition allocLegalObj ::
    "IRTypeLegalizationContext \<Rightarrow> LegalObj \<Rightarrow> nat \<times> IRTypeLegalizationContext" where
  "allocLegalObj ctx ob = (length (legalHeap ctx), ctx\<lparr>legalHeap := legalHeap ctx @ [ob]\<rparr>)"

text \<open>\<open>LegalType::simple\<close> (lines 82-88), and the default-constructed legal type.\<close>

definition LegalType_simple :: "IRType \<Rightarrow> LegalType" where
  "LegalType_simple t = \<lparr>flavor = LegalFlavor_simple, obj = None, irType = Some t\<rparr>"

definition LegalType_none :: LegalType where
  "LegalType_none = \<lparr>flavor = LegalFlavor_none, obj = None, irType = None\<rparr>"

subsection \<open>The constructors and \<open>legalizeType\<close>\<close>

text \<open>
  Modelled from the spec: the bodies of \<open>LegalType::implicitDeref\<close>, \<open>LegalType::tuple\<close>,
  \<open>LegalType::pair\<close> and \<open>LegalType::makeWrappedBuffer\<close>, which the header declares and
  legalize-types.cpp defines.  Each allocates the object of its pseudo-type and returns a
  legal type of that flavor pointing to it.
\<close>

definition LegalType_implicitDeref ::
    "IRTypeLegalizationContext \<Rightarrow> LegalType \<Rightarrow> LegalType \<times> IRTypeLegalizationContext" where
  "LegalType_implicitDeref ctx valueType =
     (let (a, ctx') = allocLegalObj ctx (ImplicitDerefType valueType)
      in (\<lparr>flavor = LegalFlavor_implicitDeref, obj = Some a, irType = None\<rparr>, ctx'))"

definition LegalType_tuple ::
    "IRTypeLegalizationContext \<Rightarrow> (nat \<times> LegalType) list \<Rightarrow> LegalType \<times> IRTypeLegalizationContext" where
  "LegalType_tuple ctx elements =
     (let (a, ctx') = allocLegalObj ctx (TuplePseudoType elements)
      in (\<lparr>flavor = LegalFlavor_tuple, obj = Some a, irType = None\<rparr>, ctx'))"

definition LegalType_pair ::
    "IRTypeLegalizationContext \<Rightarrow> LegalType \<Rightarrow> LegalType \<Rightarrow> PairInfoElement list
      \<Rightarrow> LegalType \<times> IRTypeLegalizationContext" where
  "LegalType_pair ctx ordinaryType specialType pairElements =
     (let (i, ctx1) = allocLegalObj ctx (PairInfo pairElements);
          (a, ctx2) = allocLegalObj ctx1 (PairPseudoType ordinaryType specialType i)
      in (\<lparr>flavor = LegalFlavor_pair, obj = Some a, irType = None\<rparr>, ctx2))"

definition LegalType_makeWrappedBuffer ::
    "IRTypeLegalizationContext \<Rightarrow> IRType \<Rightarrow> LegalType \<Rightarrow> LegalType \<times> IRTypeLegalizationContext" where
  "LegalType_makeWrappedBuffer ctx simpleType elementInfo =
     (let (a, ctx') = allocLegalObj ctx (WrappedBufferPseudoType simpleType elementInfo)
      in (\<lparr>flavor = LegalFlavor_wrappedBuffer, obj = Some a, irType = None\<rparr>, ctx'))"

text \<open>
  Modelled from the spec: the classification of an aggregate from the legal types of its
  fields (legalize-types.cpp).  A field is ordinary when its legal type is \<open>simple\<close> and its
  type is not special; a field whose legal type is a pair lives on both sides; any other
  field is special.  An aggregate of ordinary fields only is \<open>simple\<close>, unchanged.
  Otherwise the ordinary fields keep an aggregate shape, the special fields are collected
  in a tuple, and a \<open>PairInfo\<close> records for each field the side or sides it is on; with no
  ordinary field at all the result is the tuple.
\<close>

definition isOrdinaryField :: "LegalizationTarget \<Rightarrow> nat \<times> IRType \<times> LegalType \<Rightarrow> bool" where
  "isOrdinaryField tgt f =
     (case f of (k, t, lt) \<Rightarrow> flavor lt = LegalFlavor_simple \<and> \<not> isSpecialType tgt t)"

definition fieldFlags :: "LegalizationTarget \<Rightarrow> nat \<times> IRType \<times> LegalType \<Rightarrow> nat" where
  "fieldFlags tgt f =
     (case f of (k, t, lt) \<Rightarrow>
        if isOrdinaryField tgt f then kFlag_hasOrdinary
        else if flavor lt = LegalFlavor_pair then kFlag_hasOrdinary + kFlag_hasSpecial
        else kFlag_hasSpecial)"

definition pairInfoOf :: "IRTypeLegalizationContext \<Rightarrow> LegalType \<Rightarrow> nat option" where
  "pairInfoOf ctx lt =
     (case obj lt of
        None \<Rightarrow> None
      | Some a \<Rightarrow>
          (if a < length (legalHeap ctx) then
             (case legalHeap ctx ! a of PairPseudoType o' s i \<Rightarrow> Some i | _ \<Rightarrow> None)
           else None))"

definition legalizeAggregate ::
    "LegalizationTarget \<Rightarrow> IRTypeLegalizationContext \<Rightarrow> nat \<Rightarrow> (nat \<times> IRType \<times> LegalType) list
      \<Rightarrow> LegalType \<times> IRTypeLegalizationContext" where
  "legalizeAggregate tgt ctx structId fs =
     (if list_all (isOrdinaryField tgt) fs then
        (LegalType_simple (IRStructType structId (map (\<lambda>(k, t, lt). (k, t)) fs)), ctx)
      else
        (let ordinaryFields = filter (\<lambda>f. fieldFlags tgt f \<noteq> kFlag_hasSpecial) fs;
             specialFields = filter (\<lambda>f. fieldFlags tgt f \<noteq> kFlag_hasOrdinary) fs;
             (specialType, ctx1) = LegalType_tuple ctx (map (\<lambda>(k, t, lt). (k, lt)) specialFields)
         in if ordinaryFields = [] then (specialType, ctx1)
            else
              LegalType_pair ctx1
                (LegalType_simple (IRStructType structId (map (\<lambda>(k, t, lt). (k, t)) ordinaryFields)))
                specialType
                (map (\<lambda>(k, t, lt).
                        \<lparr>key = k, elementType = lt, flags = fieldFlags tgt (k, t, lt),
                         fieldPairInfo = pairInfoOf ctx lt\<rparr>) fs)))"

text \<open>
  Modelled from the spec: \<open>legalizeType\<close>, declared at lines 509-511 and defined in
  legalize-types.cpp.  Classification results are cached by the original type:
  legalizing a type that is in \<open>mapTypeToLegalType\<close> returns the cached legal type, and the
  result of classifying a type that is not is stored there.  \<open>legalizeTypeImpl\<close> is the
  classification: \<open>void\<close> is \<open>none\<close>; an aggregate is classified from its fields'
  legal types; a pointer-like wrapper whose pointee is unchanged is \<open>simple\<close>, and otherwise
  either keeps its buffer object (\<open>wrappedBuffer\<close>) or collapses the indirection
  (\<open>implicitDeref\<close>); any other type is \<open>simple\<close>.
\<close>

function (sequential)
  legalizeType ::
    "LegalizationTarget \<Rightarrow> IRTypeLegalizationContext \<Rightarrow> IRType
      \<Rightarrow> LegalType \<times> IRTypeLegalizationContext"
  and legalizeTypeImpl ::
    "LegalizationTarget \<Rightarrow> IRTypeLegalizationContext \<Rightarrow> IRType
      \<Rightarrow> LegalType \<times> IRTypeLegalizationContext"
  and legalizeFields ::
    "LegalizationTarget \<Rightarrow> IRTypeLegalizationContext \<Rightarrow> (nat \<times> IRType) list
      \<Rightarrow> (nat \<times> IRType \<times> LegalType) list \<times> IRTypeLegalizationContext"
where
  "legalizeType tgt ctx t =
     (case mapTypeToLegalType ctx t of
        Some legalType \<Rightarrow> (legalType, ctx)
      | None \<Rightarrow>
          (case legalizeTypeImpl tgt ctx t of
             (legalType, ctx') \<Rightarrow>
               (legalType,
                ctx'\<lparr>mapTypeToLegalType := (mapTypeToLegalType ctx')(t \<mapsto> legalType)\<rparr>)))"
| "legalizeTypeImpl tgt ctx IRVoidType = (LegalType_none, ctx)"
| "legalizeTypeImpl tgt ctx (IRStructType structId fs) =
     (case legalizeFields tgt ctx fs of
        (legalFields, ctx') \<Rightarrow> legalizeAggregate tgt ctx' structId legalFields)"
| "legalizeTypeImpl tgt ctx (IRPtrLikeType bufferOp valueType) =
     (case legalizeType tgt ctx valueType of
        (legalElementType, ctx') \<Rightarrow>
          if flavor legalElementType = LegalFlavor_simple \<and> \<not> isSpecialType tgt valueType then
            (LegalType_simple (IRPtrLikeType bufferOp valueType), ctx')
          else if keepsBufferObject tgt bufferOp then
            LegalType_makeWrappedBuffer ctx' (IRPtrLikeType bufferOp valueType) legalElementType
          else LegalType_implicitDeref ctx' legalElementType)"
| "legalizeTypeImpl tgt ctx t = (LegalType_simple t, ctx)"
| "legalizeFields tgt ctx [] = ([], ctx)"
| "legalizeFields tgt ctx ((k, t) # rest) =
     (case legalizeType tgt ctx t of
        (legalType, ctx1) \<Rightarrow>
          (case legalizeFields tgt ctx1 rest of
             (legalRest, ctx2) \<Rightarrow> ((k, t, legalType) # legalRest, ctx2)))"
  by pat_completeness auto

termination
  by (relation "inv_image (less_than <*lex*> less_than)
        (\<lambda>x. case x of
           Inl (tgt, ctx, t) \<Rightarrow> (size t, 1::nat)
         | Inr (Inl (tgt, ctx, t)) \<Rightarrow> (size t, 0)
         | Inr (Inr (tgt, ctx, fs)) \<Rightarrow> (size_list (size_prod (\<lambda>k. 0) size) fs, 0))")
     auto

declare legalizeType.simps [simp del]

text \<open>One legalization run: the types legalized one after the other, on one context.\<close>

definition legalizeTypes ::
    "LegalizationTarget \<Rightarrow> IRTypeLegalizationContext \<Rightarrow> IRType list \<Rightarrow> IRTypeLegalizationContext" where
  "legalizeTypes tgt ctx ts = foldl (\<lambda>c t. snd (legalizeType tgt c t)) ctx ts"

text \<open>
  A target on which resources are special and buffer objects are dropped, and a struct
  with an ordinary field and a resource field.
\<close>

definition example_target :: LegalizationTarget where
  "example_target =
     \<lparr>isSpecialType = (\<lambda>t. case t of IRResourceType n \<Rightarrow> True | _ \<Rightarrow> False),
      keepsBufferObject = (\<lambda>bufferOp. False)\<rparr>"

definition mixed_struct :: IRType where
  "mixed_struct = IRStructType 40 [(41, IRBasicType 2), (42, IRResourceType 3)]"

definition empty_legalization_context :: IRTypeLegalizationContext where
  "empty_legalization_context = \<lparr>mapTypeToLegalType = Map.empty, legalHeap = []\<rparr>"

text \<open>
  A context extends another when every cached entry is still there, unchanged, and every
  object allocated so far is still at its address, unchanged.
\<close>

definition ctxExtends :: "IRTypeLegalizationContext \<Rightarrow> IRTypeLegalizationContext \<Rightarrow> bool" where
  "ctxExtends c c' \<longleftrightarrow>
     (\<forall>t lt. mapTypeToLegalType c t = Some lt \<longrightarrow> mapTypeToLegalType c' t = Some lt) \<and>
     take (length (legalHeap c)) (legalHeap c') = legalHeap c"

chapter \<open>Properties\<close>

subsection \<open>Version requirements accumulate monotonically\<close>

lemma requireGLSLVersionImpl_max:
  "profileVersion (requireGLSLVersionImpl t v) = max (profileVersion t) v"
  by (simp add: requireGLSLVersionImpl_def)

lemma requireGLSLVersions_Max:
  "profileVersion (requireGLSLVersions t vs) = Max (insert (profileVersion t) (set vs))"
  unfolding requireGLSLVersions_def
proof (induction vs arbitrary: t)
  case Nil
  show ?case by simp
next
  case (Cons v vs)
  have "Max (insert (max (profileVersion t) v) (set vs))
        = Max (insert (profileVersion t) (insert v (set vs)))"
  proof (cases "set vs = {}")
    case True
    then show ?thesis by (simp add: max.commute)
  next
    case False
    then show ?thesis by (simp add: max.assoc max.commute max.left_commute)
  qed
  with Cons.IH [of "requireGLSLVersionImpl t v"] show ?case
    by (simp add: requireGLSLVersionImpl_max)
qed

text \<open>
  C5.  After any sequence of \<open>requireGLSLVersionImpl\<close> calls on one tracker the effective
  version is the maximum of the versions requested, taken together with the version the
  tracker started from; so whenever some request reaches the starting version (a fresh
  tracker starts at \<open>GLSL_110\<close>, the lowest GLSL version) it is exactly the maximum version
  requested.  A call that asks for a version not above the current one returns the
  tracker unchanged.
\<close>

theorem requireGLSLVersion_monotone_max:
  "profileVersion (requireGLSLVersions t vs) = Max (insert (profileVersion t) (set vs))
   \<and> (vs \<noteq> [] \<and> profileVersion t \<le> Max (set vs)
        \<longrightarrow> profileVersion (requireGLSLVersions t vs) = Max (set vs))
   \<and> (v \<le> profileVersion t \<longrightarrow> requireGLSLVersionImpl t v = t)"
proof (intro conjI impI)
  show "profileVersion (requireGLSLVersions t vs) = Max (insert (profileVersion t) (set vs))"
    by (rule requireGLSLVersions_Max)
next
  assume h: "vs \<noteq> [] \<and> profileVersion t \<le> Max (set vs)"
  then have "Max (insert (profileVersion t) (set vs)) = Max (set vs)"
    by (simp add: max.absorb2)
  then show "profileVersion (requireGLSLVersions t vs) = Max (set vs)"
    by (simp add: requireGLSLVersions_Max)
next
  assume "v \<le> profileVersion t"
  then show "requireGLSLVersionImpl t v = t"
    by (simp add: requireGLSLVersionImpl_def)
qed

theorem requireGLSLVersion_monotone_max_witness:
  "profileVersion (requireGLSLVersions
      \<lparr>glslExtensionsRequired = {}, glslExtensionRequireLines = [], profileVersion = 110\<rparr>
      [330, 450, 120]) = 450
   \<and> requireGLSLVersionImpl
      \<lparr>glslExtensionsRequired = {}, glslExtensionRequireLines = [], profileVersion = 450\<rparr> 120
     = \<lparr>glslExtensionsRequired = {}, glslExtensionRequireLines = [], profileVersion = 450\<rparr>"
  using requireGLSLVersion_monotone_max
    [of "\<lparr>glslExtensionsRequired = {}, glslExtensionRequireLines = [], profileVersion = 110\<rparr>"
        "[330, 450, 120]" 120]
    requireGLSLVersion_monotone_max
    [of "\<lparr>glslExtensionsRequired = {}, glslExtensionRequireLines = [], profileVersion = 450\<rparr>"
        "[]" 120]
  by simp

subsection \<open>Line directives and newline padding\<close>

declare emitLineDirectiveIfNeeded.simps [simp del] emitTextSpan.simps [simp del]

lemma flushSourceLocationChange_idle:
  "\<not> needToUpdateSourceLocation c \<Longrightarrow> flushSourceLocationChange depth c = Inr c"
  by (cases depth) simp_all

lemma emitTextSpan_empty [simp]: "emitTextSpan depth c [] = Inr c"
  by (simp add: emitTextSpan.simps)

lemma emitTextSpan_newline:
  assumes "\<not> needToUpdateSourceLocation c"
  shows "emitTextSpan depth c [newline]
         = Inr (c\<lparr>sb := sb c @ [newline], loc := (loc c)\<lparr>column := column (loc c) + 1\<rparr>\<rparr>)"
  using assms
  by (simp add: emitTextSpan.simps flushSourceLocationChange_idle emitRawText_def)

lemma Emit_newline:
  assumes "\<not> needToUpdateSourceLocation c"
  shows "Emit_spans depth c [] [newline]
         = Inr (c\<lparr>sb := sb c @ [newline],
                  loc := (loc c)\<lparr>line := line (loc c) + 1, column := 1\<rparr>,
                  isAtStartOfLine := True\<rparr>)"
  using assms by (simp add: emitTextSpan_newline)

declare Emit_spans.simps [simp del]

lemma emitNewlines_idle:
  assumes "\<not> needToUpdateSourceLocation c"
  shows "emitNewlines depth (Suc k) c
         = Inr (c\<lparr>sb := sb c @ replicate (Suc k) newline,
                  loc := (loc c)\<lparr>line := line (loc c) + int (Suc k), column := 1\<rparr>,
                  isAtStartOfLine := True\<rparr>)"
  using assms
proof (induction k arbitrary: c)
  case 0
  then show ?case by (simp add: Emit_newline)
next
  case (Suc k)
  let ?c1 = "c\<lparr>sb := sb c @ [newline],
                loc := (loc c)\<lparr>line := line (loc c) + 1, column := 1\<rparr>,
                isAtStartOfLine := True\<rparr>"
  have f: "\<not> needToUpdateSourceLocation ?c1" using Suc.prems by simp
  have "emitNewlines depth (Suc (Suc k)) c = emitNewlines depth (Suc k) ?c1"
    by (subst emitNewlines.simps(2)) (simp only: Emit_newline [OF Suc.prems] sum.case)
  also have "\<dots> = Inr (?c1\<lparr>sb := sb ?c1 @ replicate (Suc k) newline,
                  loc := (loc ?c1)\<lparr>line := line (loc ?c1) + int (Suc k), column := 1\<rparr>,
                  isAtStartOfLine := True\<rparr>)"
    by (rule Suc.IH [OF f])
  finally show ?case by (simp add: replicate_app_Cons_same)
qed

lemma sb_foldl_emitRawText:
  "foldl (\<lambda>c' ch. emitRawText c' (f ch)) c p = c\<lparr>sb := sb c @ concat (map f p)\<rparr>"
  by (induction p arbitrary: c) (simp_all add: emitRawText_def)

lemma emitRawText_fields [simp]:
  "sb (emitRawText c t) = sb c @ t"
  "loc (emitRawText c t) = loc c"
  "lineDirectiveMode (emitRawText c t) = lineDirectiveMode c"
  "mapGLSLSourcePathToID (emitRawText c t) = mapGLSLSourcePathToID c"
  "glslSourceIDCount (emitRawText c t) = glslSourceIDCount c"
  by (simp_all add: emitRawText_def)

lemma emitLineDirectivePath_sb:
  "sb (emitLineDirectivePath g c s)
   = sb c @ (if g then formatInt (case mapGLSLSourcePathToID c (path s) of
                                    Some i \<Rightarrow> i | None \<Rightarrow> glslSourceIDCount c)
             else dquote # concat (map canonicalPathChar (path s)) @ [dquote]) @ [newline]"
  by (simp add: emitLineDirectivePath_def sb_foldl_emitRawText Let_def
           split: option.splits)

lemma emitLineDirectiveIfNeeded_pad:
  assumes mode: "lineDirectiveMode c \<noteq> LineDirectiveMode_None"
                "lineDirectiveMode c \<noteq> LineDirectiveMode_Default"
    and idle: "\<not> needToUpdateSourceLocation c"
    and same: "path s = path (loc c)"
    and d: "line s - line (loc c) = int (Suc k)" "k < 3" "0 < line s"
  shows "emitLineDirectiveIfNeeded depth c s
         = Inr (c\<lparr>sb := sb c @ replicate (Suc k) newline,
                  loc := (loc c)\<lparr>line := line s, column := 1\<rparr>,
                  isAtStartOfLine := True\<rparr>)"
proof -
  have n: "nat (line s - line (loc c)) = Suc k" using d by simp
  have l: "line (loc c) + int (Suc k) = line s" using d by simp
  have gt: "line s > line (loc c)" "line s \<noteq> line (loc c)" "line s - line (loc c) \<le> 3"
    using d by simp_all
  show ?thesis
    apply (subst emitLineDirectiveIfNeeded.simps)
    using mode same gt d(3)
    apply (simp only: Let_def n emitNewlines_idle [OF idle] sum.case simp_thms if_True if_False not_le [symmetric])
    apply (simp add: l del: of_nat_Suc)
    done
qed

lemma emitLineDirectiveIfNeeded_resync:
  assumes mode: "lineDirectiveMode c \<noteq> LineDirectiveMode_None"
                "lineDirectiveMode c \<noteq> LineDirectiveMode_Default"
    and pos: "0 < line s"
    and far: "path s \<noteq> path (loc c) \<or> line s < line (loc c) \<or> line (loc c) + 4 \<le> line s"
  shows "emitLineDirectiveIfNeeded depth c s = emitLineDirectiveAndUpdateSourceLocation c s"
  using assms by (auto simp add: emitLineDirectiveIfNeeded.simps Let_def)

lemma emitLineDirectiveAndUpdateSourceLocation_enabled:
  assumes mode: "lineDirectiveMode c \<noteq> LineDirectiveMode_None"
                "lineDirectiveMode c \<noteq> LineDirectiveMode_Default"
  shows "\<exists>c'. emitLineDirectiveAndUpdateSourceLocation c s = Inr c'
           \<and> loc c' = s\<lparr>column := 1\<rparr>
           \<and> sb c' = sb c @ newline # ''#line '' @ decimal (nat (line s mod 2 ^ 64)) @ '' ''
                 @ (if lineDirectiveMode c = LineDirectiveMode_GLSL
                    then formatInt (case mapGLSLSourcePathToID c (path s) of
                                      Some i \<Rightarrow> i | None \<Rightarrow> glslSourceIDCount c)
                    else dquote # concat (map canonicalPathChar (path s)) @ [dquote])
                 @ [newline]"
  using assms
  by (cases "lineDirectiveMode c")
     (simp_all add: emitLineDirectiveAndUpdateSourceLocation_def emitLineDirective_def Let_def
        emitLineDirectivePath_sb split: option.splits)

text \<open>
  C3.  With line directives enabled (the mode is neither \<open>None\<close> nor \<open>Default\<close>), a
  location with a line above 0, and no other location pending (as
  \<open>flushSourceLocationChange\<close>, the only caller, leaves it): when the location is in the
  cursor's file and 1, 2 or 3 lines below the cursor, \<open>emitLineDirectiveIfNeeded\<close> appends
  exactly that many newline characters and nothing else, and the cursor stands at column 1
  of that line; when the file differs, or the line is above the cursor's, or 4 or more
  lines below it, it appends a \<open>#line\<close> directive for the location and moves the cursor
  there.
\<close>

theorem emitLineDirectiveIfNeeded_threshold:
  assumes "lineDirectiveMode c \<noteq> LineDirectiveMode_None"
    and "lineDirectiveMode c \<noteq> LineDirectiveMode_Default"
    and "0 < line s"
    and "\<not> needToUpdateSourceLocation c"
  shows "(path s = path (loc c) \<and> line s - line (loc c) \<in> {1, 2, 3} \<longrightarrow>
            emitLineDirectiveIfNeeded depth c s
            = Inr (c\<lparr>sb := sb c @ replicate (nat (line s - line (loc c))) newline,
                     loc := (loc c)\<lparr>line := line s, column := 1\<rparr>,
                     isAtStartOfLine := True\<rparr>))
       \<and> (path s \<noteq> path (loc c) \<or> line s < line (loc c) \<or> line (loc c) + 4 \<le> line s \<longrightarrow>
            (\<exists>c'. emitLineDirectiveIfNeeded depth c s = Inr c'
               \<and> loc c' = s\<lparr>column := 1\<rparr>
               \<and> sb c' = sb c @ newline # ''#line '' @ decimal (nat (line s mod 2 ^ 64)) @ '' ''
                     @ (if lineDirectiveMode c = LineDirectiveMode_GLSL
                        then formatInt (case mapGLSLSourcePathToID c (path s) of
                                          Some i \<Rightarrow> i | None \<Rightarrow> glslSourceIDCount c)
                        else dquote # concat (map canonicalPathChar (path s)) @ [dquote])
                     @ [newline]))"
proof (intro conjI impI)
  assume h: "path s = path (loc c) \<and> line s - line (loc c) \<in> {1, 2, 3}"
  then obtain k where k: "line s - line (loc c) = int (Suc k)" "k < 3"
  proof -
    from h have "line s - line (loc c) = int (Suc 0) \<or> line s - line (loc c) = int (Suc 1)
               \<or> line s - line (loc c) = int (Suc 2)" by auto
    then show ?thesis using that by (metis less_Suc_eq numeral_2_eq_2 numeral_3_eq_3 One_nat_def)
  qed
  have "nat (line s - line (loc c)) = Suc k" using k by simp
  then show "emitLineDirectiveIfNeeded depth c s
            = Inr (c\<lparr>sb := sb c @ replicate (nat (line s - line (loc c))) newline,
                     loc := (loc c)\<lparr>line := line s, column := 1\<rparr>,
                     isAtStartOfLine := True\<rparr>)"
    using emitLineDirectiveIfNeeded_pad [OF assms(1,2,4) _ k assms(3)] h by simp
next
  assume "path s \<noteq> path (loc c) \<or> line s < line (loc c) \<or> line (loc c) + 4 \<le> line s"
  then have "emitLineDirectiveIfNeeded depth c s = emitLineDirectiveAndUpdateSourceLocation c s"
    by (rule emitLineDirectiveIfNeeded_resync [OF assms(1,2,3)])
  then show "\<exists>c'. emitLineDirectiveIfNeeded depth c s = Inr c'
               \<and> loc c' = s\<lparr>column := 1\<rparr>
               \<and> sb c' = sb c @ newline # ''#line '' @ decimal (nat (line s mod 2 ^ 64)) @ '' ''
                     @ (if lineDirectiveMode c = LineDirectiveMode_GLSL
                        then formatInt (case mapGLSLSourcePathToID c (path s) of
                                          Some i \<Rightarrow> i | None \<Rightarrow> glslSourceIDCount c)
                        else dquote # concat (map canonicalPathChar (path s)) @ [dquote])
                     @ [newline]"
    using emitLineDirectiveAndUpdateSourceLocation_enabled [OF assms(1,2), of s] by simp
qed

theorem emitLineDirectiveIfNeeded_threshold_witness:
  "emitLineDirectiveIfNeeded 0 example_ctx \<lparr>path = ''a.slang'', line = 12, column = 1\<rparr>
     = Inr (example_ctx\<lparr>sb := ''x'' @ [newline, newline],
              loc := \<lparr>path = ''a.slang'', line = 12, column = 1\<rparr>,
              isAtStartOfLine := True\<rparr>)
   \<and> (\<exists>c'. emitLineDirectiveIfNeeded 0 example_ctx \<lparr>path = ''a.slang'', line = 14, column = 1\<rparr>
            = Inr c'
          \<and> sb c' = ''x'' @ newline # ''#line 14 '' @ dquote # ''a.slang'' @ [dquote, newline])
   \<and> (\<exists>c'. emitLineDirectiveIfNeeded 0 example_ctx \<lparr>path = ''a.slang'', line = 9, column = 1\<rparr>
            = Inr c'
          \<and> sb c' = ''x'' @ newline # ''#line 9 '' @ dquote # ''a.slang'' @ [dquote, newline])"
proof -
  have m: "lineDirectiveMode example_ctx \<noteq> LineDirectiveMode_None"
          "lineDirectiveMode example_ctx \<noteq> LineDirectiveMode_Default"
          "\<not> needToUpdateSourceLocation example_ctx"
    by (simp_all add: example_ctx_def)
  have d: "decimal 14 = ''14''" "decimal 9 = ''9''"
    by code_simp+
  show ?thesis
    using emitLineDirectiveIfNeeded_threshold
            [OF m(1,2) _ m(3), of "\<lparr>path = ''a.slang'', line = 12, column = 1\<rparr>" 0]
          emitLineDirectiveIfNeeded_threshold
            [OF m(1,2) _ m(3), of "\<lparr>path = ''a.slang'', line = 14, column = 1\<rparr>" 0]
          emitLineDirectiveIfNeeded_threshold
            [OF m(1,2) _ m(3), of "\<lparr>path = ''a.slang'', line = 9, column = 1\<rparr>" 0]
    by (auto simp add: example_ctx_def d canonicalPathChar_def numeral_2_eq_2)
qed

text \<open>
  C10.  For a location whose line is 0 or below, \<open>advanceToSourceLocation\<close> returns the
  context as it was (no pending location is recorded), and \<open>emitLineDirectiveIfNeeded\<close>
  returns it as it was too: nothing is written and the cursor, the pending location and
  the pending flag keep their values.
\<close>

theorem invalid_location_noop:
  assumes "line s \<le> 0"
  shows "advanceToSourceLocation c s = c \<and> emitLineDirectiveIfNeeded depth c s = Inr c"
  using assms by (simp add: advanceToSourceLocation_def emitLineDirectiveIfNeeded.simps)

theorem invalid_location_noop_witness:
  "advanceToSourceLocation example_ctx \<lparr>path = ''a.slang'', line = 0, column = 7\<rparr> = example_ctx
   \<and> emitLineDirectiveIfNeeded 1 example_ctx \<lparr>path = ''b.slang'', line = - 3, column = 7\<rparr>
       = Inr example_ctx"
  using invalid_location_noop [of "\<lparr>path = ''a.slang'', line = 0, column = 7\<rparr>" example_ctx 1]
        invalid_location_noop [of "\<lparr>path = ''b.slang'', line = - 3, column = 7\<rparr>" example_ctx 1]
  by simp

subsection \<open>Generics lowering\<close>

text \<open>
  C1.  On the module with two RTTI objects whose addresses are used, the specialize step
  replaces both addresses by one and the same constant, of value 0 and type \<open>UInt64\<close>: the
  two objects do not get the IDs 0 and 1.
\<close>

theorem specializeRTTIObjectReferences_same_id:
  "specializeRTTIObjectReferences [(1, 10), (2, 11)] two_rtti_module =
     [(32, \<lparr>op = kIROp_UInt64Type, dataType = None, operands = [], intValue = 0\<rparr>),
      (33, \<lparr>op = kIROp_IntLit, dataType = Some 32, operands = [], intValue = 0\<rparr>),
      (10, \<lparr>op = kIROp_RTTIObject, dataType = None, operands = [], intValue = 0\<rparr>),
      (11, \<lparr>op = kIROp_RTTIObject, dataType = None, operands = [], intValue = 0\<rparr>),
      (20, \<lparr>op = kIROp_getAddr, dataType = None, operands = [10], intValue = 0\<rparr>),
      (21, \<lparr>op = kIROp_getAddr, dataType = None, operands = [11], intValue = 0\<rparr>),
      (30, \<lparr>op = kIROp_Other, dataType = None, operands = [33], intValue = 0\<rparr>),
      (31, \<lparr>op = kIROp_Other, dataType = None, operands = [33], intValue = 0\<rparr>)]"
  by code_simp

text \<open>
  C2.  When \<open>specializeDispatchFunctions\<close> is the pass that reports the first error, the
  rest of the specialize step is skipped, but \<open>constructSSA\<close> and \<open>eliminateDeadCode\<close> still
  run after it.
\<close>

theorem lowerGenerics_runs_cleanup_after_error:
  "executed (lowerGenerics (\<lambda>s m. m) failing_dispatch_pass initial_lowering_state) =
     [AugmentMakeExistentialInsts, LowerGenericFunctions, LowerGenericType, LowerExistentials,
      LowerGenericCalls, GenerateWitnessTableWrapperFunctions,
      GenerateAnyValueMarshallingFunctions, SpecializeDispatchFunctions,
      ConstructSSA, EliminateDeadCode]
   \<and> errorCount (lowerGenerics (\<lambda>s m. m) failing_dispatch_pass initial_lowering_state) = 1"
  by (simp add: lowerGenerics_def specializeRTTIObjects_def runContextPass_def runModulePass_def
        failing_dispatch_pass_def initial_lowering_state_def)

subsection \<open>Switch case folding\<close>

lemma then_emit_assoc: "then_emit (then_emit a b) c = then_emit a (then_emit b c)"
  by (cases a; cases b; cases c) simp_all

lemma then_emit_Nil [simp]: "then_emit (Inr []) r = r" "then_emit r (Inr []) = r"
  by (cases r; simp)+







lemma caseGroups_first_label:
  "map snd (caseGroups ((v, l) # cs)) = l # map snd (caseGroups (dropWhile (\<lambda>c. snd c = l) cs))"
  by simp






subsection \<open>Loops and the \<open>continue\<close> label\<close>

lemma findLabel_top: "findLabel ((b, labelOp) # parent) b = Some labelOp"
  by simp

text \<open>
  C8.  When the walk comes to a block that ends in a \<open>loop\<close> instruction with target
  (header) block \<open>T\<close>, break block \<open>B\<close> and continue block \<open>C\<close>, it writes \<open>for(;;)\<close> and
  walks the body with \<open>(T, continue)\<close> on top of \<open>(B, break)\<close> on top of the labels it
  had: the continue label is the header, and \<open>C\<close> is not used.  With these two entries on
  top of any enclosing labels, a branch to \<open>T\<close> is written as \<open>continue;\<close> and nothing else,
  inside the body of this loop, so it belongs to this loop and not to an enclosing one.
\<close>

theorem loop_continue_label_is_header:
  assumes "terminator (blocks b) = kIROp_loop T B C args loopControl"
    and "Some b \<noteq> end"
    and "findLabel useLabels b = None"
    and "Some T \<noteq> end'"
  shows "emitIRStmtsForBlocks_while (Suc fuel) tgt blocks begin end labels useLabels b =
           then_emit
             (Inr (map EmitIRInst (insts (blocks b)) @ [AdvanceToSourceLocation (sourceLoc (blocks b))]
                   @ emitPhiVarAssignments args (blocks T)
                   @ (if loopControl = Some kIRLoopControl_Unroll \<and> tgt = CodeGenTarget_HLSL
                      then [EmitText (''[unroll]'' @ [CHR 0x0A])] else [])
                   @ [EmitText (''for(;;)'' @ [CHR 0x0A] @ ''{'' @ [CHR 0x0A]), Indent]))
          (then_emit
             (emitIRStmtsForBlocks_while fuel tgt blocks T None
                ((T, kLabelOp_continue) # (B, kLabelOp_break) # labels)
                ((B, kLabelOp_break) # labels) T)
          (then_emit
             (Inr [Dedent, EmitText (''}'' @ [CHR 0x0A])])
             (if B = begin then Inr []
              else emitIRStmtsForBlocks_while fuel tgt blocks begin end labels labels B)))
       \<and> emitIRStmtsForBlocks_while (Suc fuel') tgt blocks begin' end'
             ((T, kLabelOp_continue) # (B, kLabelOp_break) # labels)
             ((T, kLabelOp_continue) # (B, kLabelOp_break) # labels) T =
           Inr [EmitText (''continue;'' @ [CHR 0x0A])]"
proof
  show "emitIRStmtsForBlocks_while (Suc fuel) tgt blocks begin end labels useLabels b =
           then_emit
             (Inr (map EmitIRInst (insts (blocks b)) @ [AdvanceToSourceLocation (sourceLoc (blocks b))]
                   @ emitPhiVarAssignments args (blocks T)
                   @ (if loopControl = Some kIRLoopControl_Unroll \<and> tgt = CodeGenTarget_HLSL
                      then [EmitText (''[unroll]'' @ [CHR 0x0A])] else [])
                   @ [EmitText (''for(;;)'' @ [CHR 0x0A] @ ''{'' @ [CHR 0x0A]), Indent]))
          (then_emit
             (emitIRStmtsForBlocks_while fuel tgt blocks T None
                ((T, kLabelOp_continue) # (B, kLabelOp_break) # labels)
                ((B, kLabelOp_break) # labels) T)
          (then_emit
             (Inr [Dedent, EmitText (''}'' @ [CHR 0x0A])])
             (if B = begin then Inr []
              else emitIRStmtsForBlocks_while fuel tgt blocks begin end labels labels B)))"
    using assms(1,2,3)
    by (subst emitIRStmtsForBlocks_while.simps(2))
       (simp add: emitIRStmtsForBlocks.simps then_emit_assoc [symmetric])
  show "emitIRStmtsForBlocks_while (Suc fuel') tgt blocks begin' end'
             ((T, kLabelOp_continue) # (B, kLabelOp_break) # labels)
             ((T, kLabelOp_continue) # (B, kLabelOp_break) # labels) T =
           Inr [EmitText (''continue;'' @ [CHR 0x0A])]"
    using assms(4)
    by (subst emitIRStmtsForBlocks_while.simps(2)) (simp add: emitLabelOp_def)
qed

lemma nested_loops_inner_body:
  "emitIRStmtsForBlocks_while 7 CodeGenTarget_HLSL nested_loops_example 13 None
      [(13, kLabelOp_continue), (17, kLabelOp_break), (11, kLabelOp_continue), (19, kLabelOp_break)]
      [(17, kLabelOp_break), (11, kLabelOp_continue), (19, kLabelOp_break)] 13 =
     Inr [EmitIRInst 130, AdvanceToSourceLocation 0,
          EmitText ''if('', EmitIROperand 131, EmitText ('')'' @ [CHR 0x0A] @ ''{'' @ [CHR 0x0A]),
          Indent, EmitIRInst 140, AdvanceToSourceLocation 0,
          EmitText (''continue;'' @ [CHR 0x0A]),
          Dedent, EmitText (''}'' @ [CHR 0x0A]),
          EmitIRInst 150, AdvanceToSourceLocation 0, EmitText (''break;'' @ [CHR 0x0A])]"
  by code_simp

lemma nested_loops_after_inner:
  "emitIRStmtsForBlocks_while 7 CodeGenTarget_HLSL nested_loops_example 11 None
      [(11, kLabelOp_continue), (19, kLabelOp_break)]
      [(11, kLabelOp_continue), (19, kLabelOp_break)] 17 =
     Inr [EmitIRInst 170, AdvanceToSourceLocation 0]"
  by code_simp

theorem loop_continue_label_is_header_witness:
  "emitIRStmtsForBlocks_while (Suc 7) CodeGenTarget_HLSL nested_loops_example 11 None
      [(11, kLabelOp_continue), (19, kLabelOp_break)] [(19, kLabelOp_break)] 11 =
     Inr [EmitIRInst 110, AdvanceToSourceLocation 0,
          EmitText (''for(;;)'' @ [CHR 0x0A] @ ''{'' @ [CHR 0x0A]), Indent,
          EmitIRInst 130, AdvanceToSourceLocation 0,
          EmitText ''if('', EmitIROperand 131, EmitText ('')'' @ [CHR 0x0A] @ ''{'' @ [CHR 0x0A]),
          Indent, EmitIRInst 140, AdvanceToSourceLocation 0,
          EmitText (''continue;'' @ [CHR 0x0A]),
          Dedent, EmitText (''}'' @ [CHR 0x0A]),
          EmitIRInst 150, AdvanceToSourceLocation 0, EmitText (''break;'' @ [CHR 0x0A]),
          Dedent, EmitText (''}'' @ [CHR 0x0A]),
          EmitIRInst 170, AdvanceToSourceLocation 0]
   \<and> emitIRStmtsForBlocks_while (Suc 4) CodeGenTarget_HLSL nested_loops_example 14 (Some 15)
      [(13, kLabelOp_continue), (17, kLabelOp_break), (11, kLabelOp_continue), (19, kLabelOp_break)]
      [(13, kLabelOp_continue), (17, kLabelOp_break), (11, kLabelOp_continue), (19, kLabelOp_break)]
      13 =
     Inr [EmitText (''continue;'' @ [CHR 0x0A])]"
proof -
  have t: "terminator (nested_loops_example 11) = kIROp_loop 13 17 16 [] None"
    by (simp add: nested_loops_example_def blocksOf_def)
  have b: "insts (nested_loops_example 11) = [110]" "sourceLoc (nested_loops_example 11) = 0"
    "params (nested_loops_example 13) = []"
    by (simp_all add: nested_loops_example_def blocksOf_def)
  have e: "Some (11::nat) \<noteq> None" "findLabel [(19, kLabelOp_break)] 11 = None"
    "Some (13::nat) \<noteq> Some 15"
    by simp_all
  show ?thesis
    using loop_continue_label_is_header
            [where blocks = nested_loops_example and b = 11 and T = 13 and B = 17 and C = 16
               and args = "[]" and loopControl = None and ?end = None
               and useLabels = "[(19, kLabelOp_break)]" and end' = "Some 15"
               and fuel = 7 and tgt = CodeGenTarget_HLSL and ?begin = 11
               and labels = "[(11, kLabelOp_continue), (19, kLabelOp_break)]"
               and fuel' = 4 and begin' = 14, OF t e]
    by (simp add: b emitPhiVarAssignments_def nested_loops_inner_body nested_loops_after_inner)
qed

subsection \<open>Struct declarations: at most once, field types first\<close>

lemma written_emitD [simp]: "written (emitD c evs) = written c @ evs"
  and visited_emitD [simp]: "irDeclsVisited (emitD c evs) = irDeclsVisited c"
  and target_emitD [simp]: "target (emitD c evs) = target c"
  by (simp_all add: emitD_def)

lemma structDecls_append [simp]: "structDecls (a @ b) = structDecls a @ structDecls b"
  by (induction a rule: structDecls.induct) simp_all

lemma structDecls_fields [simp]: "structDecls (concat (map (emitStructField tgt) fs)) = []"
  by (induction fs) (simp_all add: emitStructField_def)

lemma structDecls_emitStructDeclText [simp]: "structDecls (emitStructDeclText tgt d) = [d]"
  by (simp add: emitStructDeclText_def)

lemma emitIRUsedType_usedStructDecl:
  "emitIRUsedType c t = (case usedStructDecl t of None \<Rightarrow> c | Some d \<Rightarrow> ensureStructDecl c d)"
proof (induction t arbitrary: c rule: usedStructDecl.induct)
  case (5 d)
  show ?case by (cases d) (simp add: emitIRUsedType.simps emitIRUsedDeclRef.simps)
qed (simp_all add: emitIRUsedType.simps)

lemma usedStructDecl_in_declsInType:
  "usedStructDecl t = Some d \<Longrightarrow> d \<in> set (declsInType t)"
proof (induction t rule: usedStructDecl.induct)
  case (5 d')
  then show ?case by (cases d') (auto split: if_splits)
qed simp_all

lemma fieldStructsOf_in_declsInFields:
  "set (fieldStructsOf fs) \<subseteq> set (declsInFields fs)"
proof (induction fs rule: fieldStructsOf.induct)
  case 1
  show ?case by simp
next
  case (2 name isStatic t rest)
  then show ?case
    by (auto split: option.splits dest: usedStructDecl_in_declsInType)
qed

lemma declsInFields_closed:
  "\<forall>s \<in> set (declsInType t). set (declsInFields (structFields s)) \<subseteq> set (declsInType t)"
  "\<forall>s \<in> set (declsInDecl d). set (declsInFields (structFields s)) \<subseteq> set (declsInDecl d)"
  "\<forall>s \<in> set (declsInFields fs). set (declsInFields (structFields s)) \<subseteq> set (declsInFields fs)"
  by (induction t and d and fs rule: declsInType_declsInDecl_declsInFields.induct) auto

lemma fieldStructs_nested:
  assumes "s \<in> set (declsInFields fs)"
  shows "set (fieldStructs s) \<subseteq> set (declsInFields fs)"
  using assms declsInFields_closed(3) [of fs] fieldStructsOf_in_declsInFields [of "structFields s"]
  by (auto simp add: fieldStructs_def)

lemma fieldsFirst_snoc:
  "fieldsFirst (xs @ [d]) \<longleftrightarrow>
     fieldsFirst xs \<and> (\<forall>s \<in> set xs. \<forall>f \<in> set (fieldStructs s). mangledName f \<noteq> mangledName d)"
  by (induction xs) (auto simp add: list_all_iff)

lemma emitInvariant_visit:
  "emitInvariant strong c \<Longrightarrow> emitInvariant strong (c\<lparr>irDeclsVisited := insert n (irDeclsVisited c)\<rparr>)"
  by (auto simp add: emitInvariant_def)

lemma stepOK_same:
  "emitInvariant strong c \<Longrightarrow> post \<subseteq> irDeclsVisited c \<Longrightarrow> stepOK strong c c U post"
  by (simp add: stepOK_def)

lemma stepOK_trans:
  assumes "stepOK strong c c1 U1 p1" and "stepOK strong c1 c2 U2 p2"
    and "set U1 \<subseteq> set U" and "set U2 \<subseteq> set U"
  shows "stepOK strong c c2 U (p1 \<union> p2)"
proof -
  from assms(1) obtain ds1 where 1: "irDeclsVisited c \<subseteq> irDeclsVisited c1" "target c1 = target c"
    "structDecls (written c1) = structDecls (written c) @ ds1" "set ds1 \<subseteq> set U1"
    "\<forall>d \<in> set ds1. mangledName d \<notin> irDeclsVisited c" "p1 \<subseteq> irDeclsVisited c1"
    unfolding stepOK_def by blast
  from assms(2) obtain ds2 where 2: "irDeclsVisited c1 \<subseteq> irDeclsVisited c2" "target c2 = target c1"
    "structDecls (written c2) = structDecls (written c1) @ ds2" "set ds2 \<subseteq> set U2"
    "\<forall>d \<in> set ds2. mangledName d \<notin> irDeclsVisited c1" "emitInvariant strong c2"
    "p2 \<subseteq> irDeclsVisited c2"
    unfolding stepOK_def by blast
  have "structDecls (written c2) = structDecls (written c) @ (ds1 @ ds2)"
    using 1(3) 2(3) by simp
  moreover have "set (ds1 @ ds2) \<subseteq> set U"
    using 1(4) 2(4) assms(3,4) by auto
  moreover have "\<forall>d \<in> set (ds1 @ ds2). mangledName d \<notin> irDeclsVisited c"
    using 1(1,5) 2(5) by auto
  ultimately have ex: "\<exists>ds. structDecls (written c2) = structDecls (written c) @ ds
               \<and> set ds \<subseteq> set U
               \<and> (\<forall>d \<in> set ds. mangledName d \<notin> irDeclsVisited c)"
    by blast
  show ?thesis
    unfolding stepOK_def using ex 1(1,2,6) 2(1,2,6,7) by auto
qed

lemma stepOK_widen:
  "stepOK strong c c' U p \<Longrightarrow> set U \<subseteq> set U' \<Longrightarrow> p' \<subseteq> p \<Longrightarrow> stepOK strong c c' U' p'"
  unfolding stepOK_def by blast



lemma usedNames_simps [simp]:
  "usedNames (ArrayExpressionType t) = usedNames t"
  "usedNames (TextureTypeBase t) = usedNames t"
  "usedNames (BuiltinGenericType t) = usedNames t"
  "usedNames (PtrTypeBase k t) = usedNames t"
  "usedNames (BasicExpressionType v) = {}"
  "usedNames VectorExpressionType = {}"
  "usedNames MatrixExpressionType = {}"
  "usedNames SamplerStateType = {}"
  "usedNames OtherType = {}"
  by (simp_all add: usedNames_def)

lemma fieldStructsOf_names:
  "set (map mangledName (fieldStructsOf (Field name isStatic t # rest))) =
     (if isStatic then {} else usedNames t) \<union> set (map mangledName (fieldStructsOf rest))"
  by (auto simp add: usedNames_def split: option.splits)

lemma ensureStructDecl_step:
  assumes ns: "strong \<longrightarrow> noSelfNestingDecl (Decl name isStruct builtinType magicType builtin fs)"
    and inv: "emitInvariant strong ctx"
    and IH: "\<And>x. name \<notin> irDeclsVisited ctx \<Longrightarrow>
               x = ctx\<lparr>irDeclsVisited := insert name (irDeclsVisited ctx)\<rparr> \<Longrightarrow>
               (strong \<longrightarrow> noSelfNestingFields fs) \<Longrightarrow> emitInvariant strong x \<Longrightarrow>
               stepOK strong x (emitIRUsedFieldTypes x fs) (declsInFields fs)
                 (set (map mangledName (fieldStructsOf fs)))"
  shows "stepOK strong ctx (ensureStructDecl ctx (Decl name isStruct builtinType magicType builtin fs))
           (declsInDecl (Decl name isStruct builtinType magicType builtin fs)) {name}"
proof (cases "name \<in> irDeclsVisited ctx")
  case True
  then show ?thesis
    using inv by (simp add: ensureStructDecl.simps stepOK_same)
next
  case False
  define D where "D = Decl name isStruct builtinType magicType builtin fs"
  define ctx1 where "ctx1 = ctx\<lparr>irDeclsVisited := insert name (irDeclsVisited ctx)\<rparr>"
  define ctx2 where "ctx2 = emitIRUsedFieldTypes ctx1 fs"
  have nsf: "strong \<longrightarrow> noSelfNestingFields fs"
    and fresh: "strong \<longrightarrow> name \<notin> set (map mangledName (declsInFields fs))"
    using ns by simp_all
  have inv1: "emitInvariant strong ctx1"
    unfolding ctx1_def using inv by (rule emitInvariant_visit)
  have st: "stepOK strong ctx1 ctx2 (declsInFields fs) (set (map mangledName (fieldStructsOf fs)))"
    unfolding ctx2_def using IH [OF False ctx1_def nsf inv1] .
  then obtain ds where ds: "irDeclsVisited ctx1 \<subseteq> irDeclsVisited ctx2"
      "target ctx2 = target ctx1"
      "structDecls (written ctx2) = structDecls (written ctx1) @ ds"
      "set ds \<subseteq> set (declsInFields fs)"
      "\<forall>d \<in> set ds. mangledName d \<notin> irDeclsVisited ctx1"
      "emitInvariant strong ctx2"
      "set (map mangledName (fieldStructsOf fs)) \<subseteq> irDeclsVisited ctx2"
    unfolding stepOK_def by blast
  have v1: "irDeclsVisited ctx1 = insert name (irDeclsVisited ctx)"
    and w1: "written ctx1 = written ctx" and t1: "target ctx1 = target ctx"
    by (simp_all add: ctx1_def)
  have old: "set (map mangledName (structDecls (written ctx))) \<subseteq> irDeclsVisited ctx"
    and oldf: "strong \<longrightarrow> (\<forall>s \<in> set (structDecls (written ctx)).
                 set (map mangledName (fieldStructs s)) \<subseteq> irDeclsVisited ctx)"
    using inv by (simp_all add: emitInvariant_def)
  show ?thesis
  proof (cases builtin)
    case True
    have res: "ensureStructDecl ctx (Decl name isStruct builtinType magicType builtin fs) = ctx2"
      using False True by (simp add: ensureStructDecl.simps ctx2_def ctx1_def)
    have "\<exists>ds. structDecls (written ctx2) = structDecls (written ctx) @ ds
            \<and> set ds \<subseteq> set (declsInDecl (Decl name isStruct builtinType magicType builtin fs))
            \<and> (\<forall>d \<in> set ds. mangledName d \<notin> irDeclsVisited ctx)"
      using ds(3,4,5) w1 v1 by auto
    then show ?thesis
      unfolding res stepOK_def using ds(1,2,6) v1 t1 by auto
  next
    case nb: False
    have res: "ensureStructDecl ctx (Decl name isStruct builtinType magicType builtin fs)
               = emitD ctx2 (emitStructDeclText (target ctx2) D)"
      using False nb by (simp add: ensureStructDecl.simps ctx2_def ctx1_def D_def Let_def)
    let ?c3 = "emitD ctx2 (emitStructDeclText (target ctx2) D)"
    have L3: "structDecls (written ?c3) = structDecls (written ctx) @ ds @ [D]"
      using ds(3) w1 by simp
    have nD: "mangledName D = name" by (simp add: D_def)
    have name_new: "name \<notin> set (map mangledName (structDecls (written ctx) @ ds))"
      using old False ds(5) v1 by auto
    have dist2: "distinct (map mangledName (structDecls (written ctx2)))"
      and sub2: "set (map mangledName (structDecls (written ctx2))) \<subseteq> irDeclsVisited ctx2"
      and f2: "strong \<longrightarrow> (\<forall>s \<in> set (structDecls (written ctx2)).
                 set (map mangledName (fieldStructs s)) \<subseteq> irDeclsVisited ctx2)"
      and ff2: "strong \<longrightarrow> fieldsFirst (structDecls (written ctx2))"
      using ds(6) by (simp_all add: emitInvariant_def)
    have in2: "name \<in> irDeclsVisited ctx2" using ds(1) v1 by auto
    have fD: "set (map mangledName (fieldStructs D)) \<subseteq> irDeclsVisited ctx2"
      using ds(7) by (simp add: fieldStructs_def D_def)
    have no_field: "strong \<longrightarrow> (\<forall>s \<in> set (structDecls (written ctx2)).
                      \<forall>f \<in> set (fieldStructs s). mangledName f \<noteq> mangledName D)"
    proof (intro impI ballI)
      fix s f
      assume strong: strong
      assume s: "s \<in> set (structDecls (written ctx2))" and f: "f \<in> set (fieldStructs s)"
      from s have "s \<in> set (structDecls (written ctx)) \<or> s \<in> set ds"
        using ds(3) w1 by auto
      then show "mangledName f \<noteq> mangledName D"
      proof
        assume "s \<in> set (structDecls (written ctx))"
        then have "mangledName f \<in> irDeclsVisited ctx" using oldf f strong by auto
        then show ?thesis using False nD by auto
      next
        assume "s \<in> set ds"
        then have "s \<in> set (declsInFields fs)" using ds(4) by auto
        then have "f \<in> set (declsInFields fs)" using fieldStructs_nested f by blast
        then have "mangledName f \<in> mangledName ` set (declsInFields fs)" by (rule imageI)
        then show ?thesis
          using fresh nD strong by (cases "mangledName f = mangledName D") simp_all
      qed
    qed
    have inv3: "emitInvariant strong ?c3"
      unfolding emitInvariant_def
    proof (intro conjI)
      show "distinct (map mangledName (structDecls (written ?c3)))"
        using dist2 name_new ds(3) w1 nD by simp
      show "set (map mangledName (structDecls (written ?c3))) \<subseteq> irDeclsVisited ?c3"
        using sub2 in2 nD by simp
      show "strong \<longrightarrow>
              (\<forall>s \<in> set (structDecls (written ?c3)).
                 set (map mangledName (fieldStructs s)) \<subseteq> irDeclsVisited ?c3)
              \<and> fieldsFirst (structDecls (written ?c3))"
        using f2 fD ff2 no_field by (auto simp add: fieldsFirst_snoc)
    qed
    have "\<exists>ds'. structDecls (written ?c3) = structDecls (written ctx) @ ds'
            \<and> set ds' \<subseteq> set (declsInDecl (Decl name isStruct builtinType magicType builtin fs))
            \<and> (\<forall>d \<in> set ds'. mangledName d \<notin> irDeclsVisited ctx)"
    proof (intro exI conjI)
      show "structDecls (written ?c3) = structDecls (written ctx) @ (ds @ [D])"
        using L3 by simp
      show "set (ds @ [D]) \<subseteq> set (declsInDecl (Decl name isStruct builtinType magicType builtin fs))"
        using ds(4) by (auto simp add: D_def)
      show "\<forall>d \<in> set (ds @ [D]). mangledName d \<notin> irDeclsVisited ctx"
        using ds(5) v1 False nD by auto
    qed
    then show ?thesis
      unfolding res stepOK_def using ds(1,2) v1 t1 inv3 in2 by auto
  qed
qed

lemma used_types_step:
  "strong \<longrightarrow> noSelfNesting t \<Longrightarrow> emitInvariant strong ctx \<Longrightarrow>
     stepOK strong ctx (emitIRUsedType ctx t) (declsInType t) (usedNames t)"
  "strong \<longrightarrow> noSelfNestingDecl d \<Longrightarrow> emitInvariant strong ctx' \<Longrightarrow>
     stepOK strong ctx' (emitIRUsedDeclRef ctx' d) (declsInDecl d) (usedNames (DeclRefType d))"
  "strong \<longrightarrow> noSelfNestingDecl d' \<Longrightarrow> emitInvariant strong ctx'' \<Longrightarrow>
     stepOK strong ctx'' (ensureStructDecl ctx'' d') (declsInDecl d') {mangledName d'}"
  "strong \<longrightarrow> noSelfNestingFields fs \<Longrightarrow> emitInvariant strong ctx''' \<Longrightarrow>
     stepOK strong ctx''' (emitIRUsedFieldTypes ctx''' fs) (declsInFields fs)
       (set (map mangledName (fieldStructsOf fs)))"
proof (induction ctx t and ctx' d and ctx'' d' and ctx''' fs
       rule: emitIRUsedType_emitIRUsedDeclRef_ensureStructDecl_emitIRUsedFieldTypes.induct)
  case (1 ctx v)
  then show ?case by (simp add: emitIRUsedType.simps stepOK_same)
next
  case (2 ctx)
  then show ?case by (simp add: emitIRUsedType.simps stepOK_same)
next
  case (3 ctx)
  then show ?case by (simp add: emitIRUsedType.simps stepOK_same)
next
  case (4 ctx baseType)
  then show ?case by (simp add: emitIRUsedType.simps)
next
  case (5 ctx elementType)
  then show ?case by (simp add: emitIRUsedType.simps)
next
  case (6 ctx elementType)
  then show ?case by (simp add: emitIRUsedType.simps)
next
  case (7 ctx k valueType)
  then show ?case by (simp add: emitIRUsedType.simps)
next
  case (8 ctx)
  then show ?case by (simp add: emitIRUsedType.simps stepOK_same)
next
  case (9 ctx declRef)
  then show ?case by (simp add: emitIRUsedType.simps)
next
  case (10 ctx)
  then show ?case by (simp add: emitIRUsedType.simps stepOK_same)
next
  case (11 ctx name isStruct builtinType magicType builtin fs)
  show ?case
  proof (cases "\<not> (builtinType \<or> magicType) \<and> isStruct")
    case True
    then have "stepOK strong ctx (ensureStructDecl ctx (Decl name isStruct builtinType magicType builtin fs))
                (declsInDecl (Decl name isStruct builtinType magicType builtin fs)) {name}"
      using 11 by simp
    then show ?thesis
      using True by (simp add: emitIRUsedDeclRef.simps usedNames_def)
  next
    case False
    then show ?thesis
      using 11(3) by (auto simp add: emitIRUsedDeclRef.simps usedNames_def stepOK_same)
  qed
next
  case (12 ctx name isStruct builtinType magicType builtin fs)
  show ?case
    using ensureStructDecl_step [OF "12.prems"(1) "12.prems"(2)] "12.IH" by simp
next
  case (13 ctx)
  then show ?case by (simp add: stepOK_same)
next
  case (14 ctx name isStatic t rest)
  have nst: "strong \<longrightarrow> noSelfNestingFields rest" and nt: "strong \<longrightarrow> noSelfNesting t"
    using "14.prems"(1) by simp_all
  show ?case
  proof (cases isStatic)
    case True
    have "stepOK strong ctx (emitIRUsedFieldTypes ctx rest) (declsInFields rest)
            (set (map mangledName (fieldStructsOf rest)))"
      using "14.IH"(2) True nst "14.prems"(2) by simp
    then show ?thesis
      using True by (simp add: stepOK_widen)
  next
    case False
    have a: "stepOK strong ctx (emitIRUsedType ctx t) (declsInType t) (usedNames t)"
      using "14.IH"(1) False nt "14.prems"(2) by simp
    then have "emitInvariant strong (emitIRUsedType ctx t)" by (simp add: stepOK_def)
    then have b: "stepOK strong (emitIRUsedType ctx t) (emitIRUsedFieldTypes (emitIRUsedType ctx t) rest)
            (declsInFields rest) (set (map mangledName (fieldStructsOf rest)))"
      using "14.IH"(2) False nst by simp
    have "stepOK strong ctx (emitIRUsedFieldTypes (emitIRUsedType ctx t) rest)
            (declsInFields (Field name isStatic t # rest))
            (usedNames t \<union> set (map mangledName (fieldStructsOf rest)))"
      by (rule stepOK_trans [OF a b]) simp_all
    then show ?thesis
      using False by (simp only: fieldStructsOf_names emitIRUsedFieldTypes.simps if_False)
  qed
qed

lemma target_preserved:
  "target (emitIRUsedType ctx t) = target ctx"
  "target (emitIRUsedDeclRef ctx' d) = target ctx'"
  "target (ensureStructDecl ctx'' d') = target ctx''"
  "target (emitIRUsedFieldTypes ctx''' fs) = target ctx'''"
proof (induction ctx t and ctx' d and ctx'' d' and ctx''' fs
       rule: emitIRUsedType_emitIRUsedDeclRef_ensureStructDecl_emitIRUsedFieldTypes.induct)
  case (11 ctx name isStruct builtinType magicType builtin fs)
  then show ?case by (simp add: emitIRUsedDeclRef.simps)
next
  case (12 ctx name isStruct builtinType magicType builtin fs)
  then show ?case by (simp add: ensureStructDecl.simps Let_def)
next
  case (14 ctx name isStatic t rest)
  then show ?case by (cases isStatic) simp_all
qed (simp_all add: emitIRUsedType.simps)

lemma emitInvariant_initial: "emitInvariant strong (initialEmitContext tgt)"
  by (simp add: emitInvariant_def initialEmitContext_def)

lemma emitInvariant_foldl:
  "strong \<longrightarrow> list_all noSelfNesting ts \<Longrightarrow> emitInvariant strong c \<Longrightarrow>
     emitInvariant strong (foldl emitIRUsedType c ts)"
proof (induction ts arbitrary: c)
  case Nil
  then show ?case by simp
next
  case (Cons t ts)
  have "stepOK strong c (emitIRUsedType c t) (declsInType t) (usedNames t)"
    using Cons.prems by (intro used_types_step(1)) simp_all
  then have "emitInvariant strong (emitIRUsedType c t)"
    by (simp add: stepOK_def)
  then show ?case using Cons.IH Cons.prems(1) by simp
qed

lemma emitIRUsedTypesForGlobalValueWithCode_types:
  "emitIRUsedTypesForGlobalValueWithCode c bbs = foldl emitIRUsedType c (codeBlockTypes bbs)"
  unfolding emitIRUsedTypesForGlobalValueWithCode_def codeBlockTypes_def
  by (induction bbs arbitrary: c) simp_all

lemma emitIRUsedTypesForValue_types:
  "emitIRUsedTypesForValue c v = foldl emitIRUsedType c (usedTypesOfValue v)"
  by (cases v)
     (simp_all add: emitIRUsedTypesForValue_def usedTypesOfValue_def
        emitIRUsedTypesForGlobalValueWithCode_types)

lemma emitIRUsedTypesForModule_types:
  "emitIRUsedTypesForModule c m = foldl emitIRUsedType c (usedTypesOfModule m)"
  unfolding emitIRUsedTypesForModule_def usedTypesOfModule_def
  by (induction m arbitrary: c) (simp_all add: emitIRUsedTypesForValue_types)

lemma written_foldl_emitD:
  "written (foldl (\<lambda>c x. emitD c (f x)) c xs) = written c @ concat (map f xs)"
  by (induction xs arbitrary: c) simp_all







lemma structDecls_params [simp]: "structDecls (emitIRFuncParams pp ts) = []"
proof (induction ts arbitrary: pp)
  case Nil
  show ?case by simp
next
  case (Cons t ts)
  have "structDecls (emitIRParamType t n) = []" for n
    by (simp add: emitIRParamType_def split: Type.splits PtrKind.splits)
  with Cons show ?case by simp
qed

lemma structDecls_emitIRFuncDecl [simp]:
  "structDecls (written (emitIRFuncDecl c func)) = structDecls (written c)"
  by (simp add: emitIRFuncDecl_def)

lemma structDecls_emitIRGlobalInst [simp]:
  "structDecls (written (emitIRGlobalInst c ii)) = structDecls (written c)"
  by (cases ii) (simp_all add: emitIRGlobalInst_def emitIRFunc_def)

lemma structDecls_emitIRFuncDecls [simp]:
  "structDecls (written (emitIRFuncDecls c m)) = structDecls (written c)"
  unfolding emitIRFuncDecls_def
  by (induction m arbitrary: c) (simp_all split: IRGlobalInst.splits)

lemma structDecls_emitIRGlobalInsts [simp]:
  "structDecls (written (foldl emitIRGlobalInst c m)) = structDecls (written c)"
  by (induction m arbitrary: c) simp_all

lemma structDecls_emitIRModule:
  "structDecls (written (emitIRModule c m)) = structDecls (written (emitIRUsedTypesForModule c m))"
  by (simp add: emitIRModule_def)

lemma fieldsDeclaredBefore_snoc:
  "fieldsDeclaredBefore e (xs @ [d]) \<longleftrightarrow>
     fieldsDeclaredBefore e xs
     \<and> (\<forall>f \<in> set (fieldStructs d). hasBuiltinModifier f \<or> f \<in> set e \<union> set xs)"
  by (induction xs arbitrary: e) (auto simp add: list_all_iff)

lemma sameNameSameDeclD:
  "sameNameSameDecl U \<Longrightarrow> a \<in> set U \<Longrightarrow> b \<in> set U \<Longrightarrow> mangledName a = mangledName b \<Longrightarrow> a = b"
  by (auto simp add: sameNameSameDecl_def list_all_iff)

lemma emitIRUsedFieldTypes_fieldStructs:
  "emitIRUsedFieldTypes ctx fs = foldl ensureStructDecl ctx (fieldStructsOf fs)"
proof (induction fs arbitrary: ctx rule: fieldStructsOf.induct)
  case 1
  show ?case by simp
next
  case (2 name isStatic t rest)
  then show ?case
    by (cases isStatic; cases "usedStructDecl t") (simp_all add: emitIRUsedType_usedStructDecl)
qed

lemma ensureStructDecl_pending:
  assumes cons: "sameNameSameDecl U"
    and J: "pendingInvariant U S ctx"
    and inv: "emitInvariant False ctx"
    and inU: "set (declsInDecl (Decl name isStruct builtinType magicType builtin fs)) \<subseteq> set U"
    and ns: "noSelfNestingDecl (Decl name isStruct builtinType magicType builtin fs)"
    and disj: "S \<inter> mangledName ` set (declsInDecl (Decl name isStruct builtinType magicType builtin fs)) = {}"
    and IH: "name \<notin> irDeclsVisited ctx \<Longrightarrow>
               pendingInvariant U (insert name S) (ctx\<lparr>irDeclsVisited := insert name (irDeclsVisited ctx)\<rparr>) \<Longrightarrow>
               pendingInvariant U (insert name S)
                 (emitIRUsedFieldTypes (ctx\<lparr>irDeclsVisited := insert name (irDeclsVisited ctx)\<rparr>) fs)"
  shows "pendingInvariant U S (ensureStructDecl ctx (Decl name isStruct builtinType magicType builtin fs))"
proof (cases "name \<in> irDeclsVisited ctx")
  case True
  then show ?thesis using J by (simp add: ensureStructDecl.simps)
next
  case False
  define D where "D = Decl name isStruct builtinType magicType builtin fs"
  define ctx1 where "ctx1 = ctx\<lparr>irDeclsVisited := insert name (irDeclsVisited ctx)\<rparr>"
  define ctx2 where "ctx2 = emitIRUsedFieldTypes ctx1 fs"
  define B where "B = mangledName ` {b \<in> set U. hasBuiltinModifier b}"
  have DU: "D \<in> set U" and fsU: "set (declsInFields fs) \<subseteq> set U"
    using inU by (simp_all add: D_def)
  have nD: "mangledName D = name" and bD: "hasBuiltinModifier D = builtin"
    and fD: "fieldStructs D = fieldStructsOf fs"
    by (simp_all add: D_def fieldStructs_def)
  have fresh: "name \<notin> mangledName ` set (declsInFields fs)"
    and nsf: "noSelfNestingFields fs"
    using ns by simp_all
  have J1: "pendingInvariant U (insert name S) ctx1"
    using J unfolding pendingInvariant_def ctx1_def by auto
  have J2: "pendingInvariant U (insert name S) ctx2"
    unfolding ctx2_def ctx1_def using IH [OF False J1 [unfolded ctx1_def]] .
  have inv1: "emitInvariant False ctx1"
    unfolding ctx1_def using inv by (rule emitInvariant_visit)
  have st: "stepOK False ctx1 ctx2 (declsInFields fs) (set (map mangledName (fieldStructsOf fs)))"
    unfolding ctx2_def using inv1 by (intro used_types_step(4)) simp
  have vis: "mangledName ` set (fieldStructsOf fs) \<subseteq> irDeclsVisited ctx2"
    and tg: "target ctx2 = target ctx1"
    using st by (simp_all add: stepOK_def)
  have v2: "irDeclsVisited ctx2 \<subseteq>
        mangledName ` set (structDecls (written ctx2)) \<union> insert name S \<union> B"
    and u2: "set (structDecls (written ctx2)) \<subseteq> set U"
    and b2: "fieldsDeclaredBefore [] (structDecls (written ctx2))"
    using J2 by (simp_all add: pendingInvariant_def B_def)
  show ?thesis
  proof (cases builtin)
    case True
    have res: "ensureStructDecl ctx (Decl name isStruct builtinType magicType builtin fs) = ctx2"
      using False True by (simp add: ensureStructDecl.simps ctx2_def ctx1_def)
    have "name \<in> B"
      unfolding B_def using DU bD True nD by force
    then show ?thesis
      unfolding res pendingInvariant_def using v2 u2 b2 by (auto simp add: B_def)
  next
    case nb: False
    have res: "ensureStructDecl ctx (Decl name isStruct builtinType magicType builtin fs)
               = emitD ctx2 (emitStructDeclText (target ctx2) D)"
      using False nb by (simp add: ensureStructDecl.simps ctx2_def ctx1_def D_def Let_def)
    have fields: "\<forall>f \<in> set (fieldStructs D).
        hasBuiltinModifier f \<or> f \<in> set [] \<union> set (structDecls (written ctx2))"
    proof (intro ballI)
      fix f assume f: "f \<in> set (fieldStructs D)"
      show "hasBuiltinModifier f \<or> f \<in> set [] \<union> set (structDecls (written ctx2))"
      proof (cases "hasBuiltinModifier f")
        case True
        then show ?thesis by simp
      next
        case nbf: False
        have fin: "f \<in> set (declsInFields fs)"
          using f fD fieldStructsOf_in_declsInFields [of fs] by auto
        then have fU: "f \<in> set U" using fsU by auto
        have "mangledName f \<in> irDeclsVisited ctx2"
          using vis f fD by auto
        then have "mangledName f \<in> mangledName ` set (structDecls (written ctx2))
                   \<or> mangledName f = name \<or> mangledName f \<in> S \<or> mangledName f \<in> B"
          using v2 by auto
        moreover have "mangledName f \<noteq> name"
          using fresh fin by auto
        moreover have "mangledName f \<notin> S"
          using disj fin by auto
        moreover have "mangledName f \<notin> B"
        proof
          assume "mangledName f \<in> B"
          then obtain b where b: "b \<in> set U" "hasBuiltinModifier b" "mangledName f = mangledName b"
            unfolding B_def by auto
          then have "f = b" using sameNameSameDeclD [OF cons fU b(1)] by simp
          then show False using nbf b(2) by simp
        qed
        ultimately have "mangledName f \<in> mangledName ` set (structDecls (written ctx2))"
          by blast
        then obtain d' where d': "d' \<in> set (structDecls (written ctx2))" "mangledName f = mangledName d'"
          by auto
        then have "f = d'" using sameNameSameDeclD [OF cons fU] u2 by auto
        then show ?thesis using d'(1) by simp
      qed
    qed
    show ?thesis
      unfolding res pendingInvariant_def
    proof (intro conjI)
      show "irDeclsVisited (emitD ctx2 (emitStructDeclText (target ctx2) D)) \<subseteq>
              mangledName ` set (structDecls (written (emitD ctx2 (emitStructDeclText (target ctx2) D))))
              \<union> S \<union> mangledName ` {b \<in> set U. hasBuiltinModifier b}"
        using v2 nD by (auto simp add: B_def)
      show "set (structDecls (written (emitD ctx2 (emitStructDeclText (target ctx2) D)))) \<subseteq> set U"
        using u2 DU by simp
      show "fieldsDeclaredBefore [] (structDecls (written (emitD ctx2 (emitStructDeclText (target ctx2) D))))"
        using b2 fields by (simp add: fieldsDeclaredBefore_snoc)
    qed
  qed
qed

lemma pending_steps:
  assumes cons: "sameNameSameDecl U"
  shows
  "\<forall>S. pendingInvariant U S ctx \<and> emitInvariant False ctx \<and> set (declsInType t) \<subseteq> set U
        \<and> noSelfNesting t \<and> S \<inter> mangledName ` set (declsInType t) = {}
        \<longrightarrow> pendingInvariant U S (emitIRUsedType ctx t)"
  "\<forall>S. pendingInvariant U S ctx' \<and> emitInvariant False ctx' \<and> set (declsInDecl d) \<subseteq> set U
        \<and> noSelfNestingDecl d \<and> S \<inter> mangledName ` set (declsInDecl d) = {}
        \<longrightarrow> pendingInvariant U S (emitIRUsedDeclRef ctx' d)"
  "\<forall>S. pendingInvariant U S ctx'' \<and> emitInvariant False ctx'' \<and> set (declsInDecl d') \<subseteq> set U
        \<and> noSelfNestingDecl d' \<and> S \<inter> mangledName ` set (declsInDecl d') = {}
        \<longrightarrow> pendingInvariant U S (ensureStructDecl ctx'' d')"
  "\<forall>S. pendingInvariant U S ctx''' \<and> emitInvariant False ctx''' \<and> set (declsInFields fs) \<subseteq> set U
        \<and> noSelfNestingFields fs \<and> S \<inter> mangledName ` set (declsInFields fs) = {}
        \<longrightarrow> pendingInvariant U S (emitIRUsedFieldTypes ctx''' fs)"
proof (induction ctx t and ctx' d and ctx'' d' and ctx''' fs
       rule: emitIRUsedType_emitIRUsedDeclRef_ensureStructDecl_emitIRUsedFieldTypes.induct)
  case (11 ctx name isStruct builtinType magicType builtin fs)
  show ?case
  proof (cases "\<not> (builtinType \<or> magicType) \<and> isStruct")
    case True
    then show ?thesis using 11 by (simp add: emitIRUsedDeclRef.simps)
  next
    case False
    then show ?thesis by (auto simp add: emitIRUsedDeclRef.simps)
  qed
next
  case (12 ctx name isStruct builtinType magicType builtin fs)
  show ?case
  proof (intro allI impI, elim conjE)
    fix S
    assume J: "pendingInvariant U S ctx" and inv: "emitInvariant False ctx"
      and inU: "set (declsInDecl (Decl name isStruct builtinType magicType builtin fs)) \<subseteq> set U"
      and ns: "noSelfNestingDecl (Decl name isStruct builtinType magicType builtin fs)"
      and disj: "S \<inter> mangledName ` set (declsInDecl (Decl name isStruct builtinType magicType builtin fs)) = {}"
    show "pendingInvariant U S (ensureStructDecl ctx (Decl name isStruct builtinType magicType builtin fs))"
    proof (rule ensureStructDecl_pending [OF cons J inv inU ns disj])
      let ?c1 = "ctx\<lparr>irDeclsVisited := insert name (irDeclsVisited ctx)\<rparr>"
      assume nv: "name \<notin> irDeclsVisited ctx" and J1: "pendingInvariant U (insert name S) ?c1"
      have inv1: "emitInvariant False ?c1" using inv by (rule emitInvariant_visit)
      have a: "set (declsInFields fs) \<subseteq> set U" using inU by simp
      have b: "noSelfNestingFields fs" using ns by simp
      have c: "insert name S \<inter> mangledName ` set (declsInFields fs) = {}"
        using ns disj by auto
      show "pendingInvariant U (insert name S) (emitIRUsedFieldTypes ?c1 fs)"
        using "12.IH" [OF nv refl] J1 inv1 a b c by blast
    qed
  qed
next
  case (14 ctx name isStatic t rest)
  show ?case
  proof (intro allI impI, elim conjE)
    fix S
    assume J: "pendingInvariant U S ctx" and inv: "emitInvariant False ctx"
      and inU: "set (declsInFields (Field name isStatic t # rest)) \<subseteq> set U"
      and ns: "noSelfNestingFields (Field name isStatic t # rest)"
      and disj: "S \<inter> mangledName ` set (declsInFields (Field name isStatic t # rest)) = {}"
    have r: "set (declsInFields rest) \<subseteq> set U" "noSelfNestingFields rest"
        "S \<inter> mangledName ` set (declsInFields rest) = {}"
      and tt: "set (declsInType t) \<subseteq> set U" "noSelfNesting t"
        "S \<inter> mangledName ` set (declsInType t) = {}"
      using inU ns disj by auto
    show "pendingInvariant U S (emitIRUsedFieldTypes ctx (Field name isStatic t # rest))"
    proof (cases isStatic)
      case True
      then show ?thesis using "14.IH"(2) J inv r by simp
    next
      case False
      have J': "pendingInvariant U S (emitIRUsedType ctx t)"
        using "14.IH"(1) [OF False] J inv tt by blast
      have "stepOK False ctx (emitIRUsedType ctx t) (declsInType t) (usedNames t)"
        using inv by (intro used_types_step(1)) simp
      then have inv': "emitInvariant False (emitIRUsedType ctx t)" by (simp add: stepOK_def)
      show ?thesis
        using "14.IH"(2) J' inv' r False by simp
    qed
  qed
qed (simp_all add: emitIRUsedType.simps)

lemma pendingInvariant_foldl:
  assumes cons: "sameNameSameDecl U"
  shows "pendingInvariant U {} c \<Longrightarrow> emitInvariant False c \<Longrightarrow>
     \<forall>t \<in> set ts. set (declsInType t) \<subseteq> set U \<Longrightarrow> list_all noSelfNesting ts \<Longrightarrow>
     pendingInvariant U {} (foldl emitIRUsedType c ts)"
proof (induction ts arbitrary: c)
  case Nil
  then show ?case by simp
next
  case (Cons t ts)
  have a: "pendingInvariant U {} (emitIRUsedType c t)"
    using pending_steps(1) [OF cons, of c t] Cons.prems by simp
  have "stepOK False c (emitIRUsedType c t) (declsInType t) (usedNames t)"
    using Cons.prems(2) by (intro used_types_step(1)) simp
  then have b: "emitInvariant False (emitIRUsedType c t)" by (simp add: stepOK_def)
  show ?case using Cons.IH [OF a b] Cons.prems(3,4) by simp
qed

lemma pendingInvariant_initial: "pendingInvariant U S (initialEmitContext tgt)"
  by (simp add: pendingInvariant_def initialEmitContext_def)

lemma usedDeclsOfModule_covers:
  "\<forall>t \<in> set (usedTypesOfModule m). set (declsInType t) \<subseteq> set (usedDeclsOfModule m)"
  by (auto simp add: usedDeclsOfModule_def)

text \<open>
  C7.  In the output of \<open>emitIRModule\<close>, started from a fresh context, no two struct
  declarations have the same mangled name, however often the module's values use the
  struct.  The declarations of a struct's field types are written before the declaration
  of the struct: when no struct is nested in itself and the mangled name is the identity
  of a declaration, every struct declared in the output stands after the declaration of
  each struct that the type of one of its fields uses (a field that is not \<open>static\<close>, a
  struct without the \<open>BuiltinModifier\<close>, for which no declaration is ever written), and
  so no struct declaration is followed by the declaration of one of its field types.  As
  this holds of every declared struct, it holds of the field types' own field types, and
  so on down.  Step by step: \<open>ensureStructDecl\<close> on a struct whose mangled name has been
  visited changes nothing; on a struct not yet visited (and not builtin) it writes first
  what the types of the struct's fields need, which is what \<open>ensureStructDecl\<close> writes
  for the structs of the field types, one after the other, and last the declaration of
  the struct.
\<close>

theorem struct_declared_once_fields_first:
  "distinct (map mangledName
       (structDecls (written (emitIRModule (initialEmitContext tgt) globalInsts))))
   \<and> (list_all noSelfNesting (usedTypesOfModule globalInsts) \<longrightarrow>
        fieldsFirst (structDecls (written (emitIRModule (initialEmitContext tgt) globalInsts))))
   \<and> (mangledName d \<in> irDeclsVisited ctx \<longrightarrow> ensureStructDecl ctx d = ctx)
   \<and> (mangledName d \<notin> irDeclsVisited ctx \<and> \<not> hasBuiltinModifier d \<longrightarrow>
        written (ensureStructDecl ctx d) =
          written (emitIRUsedFieldTypes
                     (ctx\<lparr>irDeclsVisited := insert (mangledName d) (irDeclsVisited ctx)\<rparr>)
                     (structFields d))
          @ emitStructDeclText (target ctx) d)
   \<and> (list_all noSelfNesting (usedTypesOfModule globalInsts)
        \<and> sameNameSameDecl (usedDeclsOfModule globalInsts) \<longrightarrow>
        fieldsDeclaredBefore []
          (structDecls (written (emitIRModule (initialEmitContext tgt) globalInsts))))
   \<and> emitIRUsedFieldTypes ctx fs = foldl ensureStructDecl ctx (fieldStructsOf fs)"
proof (intro conjI impI)
  have "emitInvariant False (foldl emitIRUsedType (initialEmitContext tgt)
          (usedTypesOfModule globalInsts))"
    by (rule emitInvariant_foldl) (simp_all add: emitInvariant_initial)
  then show "distinct (map mangledName
       (structDecls (written (emitIRModule (initialEmitContext tgt) globalInsts))))"
    by (simp add: structDecls_emitIRModule emitIRUsedTypesForModule_types emitInvariant_def)
next
  assume "list_all noSelfNesting (usedTypesOfModule globalInsts)"
  then have "emitInvariant True (foldl emitIRUsedType (initialEmitContext tgt)
          (usedTypesOfModule globalInsts))"
    by (intro emitInvariant_foldl) (simp_all add: emitInvariant_initial)
  then show "fieldsFirst (structDecls (written (emitIRModule (initialEmitContext tgt) globalInsts)))"
    by (simp add: structDecls_emitIRModule emitIRUsedTypesForModule_types emitInvariant_def)
next
  assume "mangledName d \<in> irDeclsVisited ctx"
  then show "ensureStructDecl ctx d = ctx"
    by (cases d) (simp add: ensureStructDecl.simps)
next
  assume "mangledName d \<notin> irDeclsVisited ctx \<and> \<not> hasBuiltinModifier d"
  then show "written (ensureStructDecl ctx d) =
          written (emitIRUsedFieldTypes
                     (ctx\<lparr>irDeclsVisited := insert (mangledName d) (irDeclsVisited ctx)\<rparr>)
                     (structFields d))
          @ emitStructDeclText (target ctx) d"
    by (cases d) (simp add: ensureStructDecl.simps Let_def target_preserved)
next
  assume a: "list_all noSelfNesting (usedTypesOfModule globalInsts)
        \<and> sameNameSameDecl (usedDeclsOfModule globalInsts)"
  have "pendingInvariant (usedDeclsOfModule globalInsts) {}
          (foldl emitIRUsedType (initialEmitContext tgt) (usedTypesOfModule globalInsts))"
    using a usedDeclsOfModule_covers [of globalInsts]
    by (intro pendingInvariant_foldl)
       (simp_all add: pendingInvariant_initial emitInvariant_initial)
  then show "fieldsDeclaredBefore []
          (structDecls (written (emitIRModule (initialEmitContext tgt) globalInsts)))"
    by (simp add: structDecls_emitIRModule emitIRUsedTypesForModule_types pendingInvariant_def)
next
  show "emitIRUsedFieldTypes ctx fs = foldl ensureStructDecl ctx (fieldStructsOf fs)"
    by (rule emitIRUsedFieldTypes_fieldStructs)
qed

theorem struct_declared_once_fields_first_witness:
  "list_all noSelfNesting (usedTypesOfModule struct_module)
   \<and> sameNameSameDecl (usedDeclsOfModule struct_module)
   \<and> structDecls (written (emitIRModule (initialEmitContext CodeGenTarget_HLSL) struct_module))
       = [inner_struct, outer_struct]
   \<and> fieldStructs outer_struct = [inner_struct, inner_struct]
   \<and> distinct (map mangledName
         (structDecls (written (emitIRModule (initialEmitContext CodeGenTarget_HLSL) struct_module))))
   \<and> fieldsFirst
         (structDecls (written (emitIRModule (initialEmitContext CodeGenTarget_HLSL) struct_module)))
   \<and> fieldsDeclaredBefore []
         (structDecls (written (emitIRModule (initialEmitContext CodeGenTarget_HLSL) struct_module)))
   \<and> ensureStructDecl
         ((initialEmitContext CodeGenTarget_HLSL)\<lparr>irDeclsVisited := {''Inner''}\<rparr>) inner_struct
       = (initialEmitContext CodeGenTarget_HLSL)\<lparr>irDeclsVisited := {''Inner''}\<rparr>
   \<and> written (ensureStructDecl (initialEmitContext CodeGenTarget_HLSL) inner_struct)
       = emitStructDeclText CodeGenTarget_HLSL inner_struct"
proof -
  have h: "list_all noSelfNesting (usedTypesOfModule struct_module)"
    by code_simp
  have k: "sameNameSameDecl (usedDeclsOfModule struct_module)"
    by code_simp
  have e: "structDecls (written (emitIRModule (initialEmitContext CodeGenTarget_HLSL) struct_module))
           = [inner_struct, outer_struct]"
    by code_simp
  have g: "fieldStructs outer_struct = [inner_struct, inner_struct]"
    by code_simp
  have v: "mangledName inner_struct
             \<in> irDeclsVisited ((initialEmitContext CodeGenTarget_HLSL)\<lparr>irDeclsVisited := {''Inner''}\<rparr>)"
    by (simp add: inner_struct_def)
  have n: "mangledName inner_struct \<notin> irDeclsVisited (initialEmitContext CodeGenTarget_HLSL)
           \<and> \<not> hasBuiltinModifier inner_struct"
    by (simp add: inner_struct_def initialEmitContext_def)
  have f: "written (emitIRUsedFieldTypes
                     ((initialEmitContext CodeGenTarget_HLSL)
                        \<lparr>irDeclsVisited :=
                           insert (mangledName inner_struct)
                             (irDeclsVisited (initialEmitContext CodeGenTarget_HLSL))\<rparr>)
                     (structFields inner_struct)) = []"
    by (simp add: inner_struct_def initialEmitContext_def emitIRUsedType.simps)
  show ?thesis
    using struct_declared_once_fields_first
            [of CodeGenTarget_HLSL struct_module inner_struct
                "(initialEmitContext CodeGenTarget_HLSL)\<lparr>irDeclsVisited := {''Inner''}\<rparr>"]
          struct_declared_once_fields_first
            [of CodeGenTarget_HLSL struct_module inner_struct "initialEmitContext CodeGenTarget_HLSL"]
          h k e g v n f
    by (simp add: initialEmitContext_def)
qed

subsection \<open>Forward declarations\<close>




section \<open>The legalization cache\<close>

lemma ctxExtends_refl: "ctxExtends c c"
  by (simp add: ctxExtends_def)

lemma ctxExtends_trans:
  assumes "ctxExtends a b" and "ctxExtends b c"
  shows "ctxExtends a c"
proof -
  have len: "length (legalHeap a) \<le> length (legalHeap b)"
    using assms(1) unfolding ctxExtends_def by (metis length_take min.cobounded1 min.commute)
  have "take (length (legalHeap a)) (legalHeap c)
          = take (length (legalHeap a)) (take (length (legalHeap b)) (legalHeap c))"
    using len by (simp add: min_def)
  also have "\<dots> = legalHeap a"
    using assms unfolding ctxExtends_def by simp
  finally show ?thesis
    using assms unfolding ctxExtends_def by simp
qed

lemma ctxExtends_alloc: "ctxExtends c (snd (allocLegalObj c ob))"
  by (simp add: ctxExtends_def allocLegalObj_def)

lemma ctxExtends_implicitDeref: "ctxExtends c (snd (LegalType_implicitDeref c v))"
  by (simp add: ctxExtends_def LegalType_implicitDeref_def allocLegalObj_def)

lemma ctxExtends_tuple: "ctxExtends c (snd (LegalType_tuple c es))"
  by (simp add: ctxExtends_def LegalType_tuple_def allocLegalObj_def)

lemma ctxExtends_pair: "ctxExtends c (snd (LegalType_pair c ot st es))"
  by (simp add: ctxExtends_def LegalType_pair_def allocLegalObj_def)

lemma ctxExtends_makeWrappedBuffer: "ctxExtends c (snd (LegalType_makeWrappedBuffer c t e))"
  by (simp add: ctxExtends_def LegalType_makeWrappedBuffer_def allocLegalObj_def)

lemma ctxExtends_legalizeAggregate: "ctxExtends c (snd (legalizeAggregate tgt c structId fs))"
proof -
  obtain st c1 where t: "LegalType_tuple c (map (\<lambda>(k, t, lt). (k, lt))
      (filter (\<lambda>f. fieldFlags tgt f \<noteq> kFlag_hasOrdinary) fs)) = (st, c1)"
    by (cases "LegalType_tuple c (map (\<lambda>(k, t, lt). (k, lt))
      (filter (\<lambda>f. fieldFlags tgt f \<noteq> kFlag_hasOrdinary) fs))") simp
  have c1: "ctxExtends c c1"
    using ctxExtends_tuple [of c "map (\<lambda>(k, t, lt). (k, lt))
      (filter (\<lambda>f. fieldFlags tgt f \<noteq> kFlag_hasOrdinary) fs)"] t by simp
  show ?thesis
    unfolding legalizeAggregate_def Let_def t
    using c1 ctxExtends_trans [OF c1 ctxExtends_pair] by (simp add: ctxExtends_refl)
qed

lemma legalizeType_extends:
  "ctxExtends ctx (snd (legalizeType tgt ctx t))"
  "ctxExtends ctx (snd (legalizeTypeImpl tgt ctx t))"
  "ctxExtends ctx (snd (legalizeFields tgt ctx fs))"
proof (induction tgt ctx t and tgt ctx t and tgt ctx fs
    rule: legalizeType_legalizeTypeImpl_legalizeFields.induct)
  case (1 tgt ctx t)
  show ?case
  proof (cases "mapTypeToLegalType ctx t")
    case (Some lt)
    then show ?thesis by (simp add: legalizeType.simps ctxExtends_refl)
  next
    case None
    obtain lt c' where i: "legalizeTypeImpl tgt ctx t = (lt, c')"
      by (cases "legalizeTypeImpl tgt ctx t") simp
    have "ctxExtends ctx c'" using 1 [OF None] i by simp
    hence "ctxExtends ctx (c'\<lparr>mapTypeToLegalType := (mapTypeToLegalType c')(t \<mapsto> lt)\<rparr>)"
      using None unfolding ctxExtends_def by auto
    then show ?thesis using None i by (simp add: legalizeType.simps)
  qed
next
  case (2 tgt ctx)
  show ?case by (simp add: ctxExtends_refl)
next
  case (3 tgt ctx structId fs)
  obtain lfs c' where f: "legalizeFields tgt ctx fs = (lfs, c')"
    by (cases "legalizeFields tgt ctx fs") simp
  have "ctxExtends ctx c'" using 3 f by simp
  from ctxExtends_trans [OF this ctxExtends_legalizeAggregate]
  show ?case using f by simp
next
  case (4 tgt ctx bufferOp valueType)
  obtain le c' where e: "legalizeType tgt ctx valueType = (le, c')"
    by (cases "legalizeType tgt ctx valueType") simp
  have c': "ctxExtends ctx c'" using 4 e by simp
  show ?case
    using e c' ctxExtends_trans [OF c' ctxExtends_makeWrappedBuffer]
      ctxExtends_trans [OF c' ctxExtends_implicitDeref]
    by simp
next
  case (7 tgt ctx k t rest)
  obtain lt c1 where a: "legalizeType tgt ctx t = (lt, c1)"
    by (cases "legalizeType tgt ctx t") simp
  obtain ls c2 where b: "legalizeFields tgt c1 rest = (ls, c2)"
    by (cases "legalizeFields tgt c1 rest") simp
  have "ctxExtends ctx c1" using 7(1) a by simp
  moreover have "ctxExtends c1 c2" using 7(2) [OF a [symmetric]] b by simp
  ultimately have "ctxExtends ctx c2" by (rule ctxExtends_trans)
  then show ?case using a b by simp
qed (simp_all add: ctxExtends_refl)

lemma legalizeType_caches:
  "mapTypeToLegalType (snd (legalizeType tgt ctx t)) t = Some (fst (legalizeType tgt ctx t))"
  by (cases "mapTypeToLegalType ctx t"; cases "legalizeTypeImpl tgt ctx t")
     (simp_all add: legalizeType.simps)

lemma legalizeType_hit:
  "mapTypeToLegalType ctx t = Some lt \<Longrightarrow> legalizeType tgt ctx t = (lt, ctx)"
  by (simp add: legalizeType.simps)

lemma legalizeTypes_extends: "ctxExtends ctx (legalizeTypes tgt ctx us)"
proof (induction us arbitrary: ctx)
  case Nil
  show ?case by (simp add: legalizeTypes_def ctxExtends_refl)
next
  case (Cons u us)
  have "ctxExtends (snd (legalizeType tgt ctx u)) (legalizeTypes tgt (snd (legalizeType tgt ctx u)) us)"
    by (rule Cons.IH)
  from ctxExtends_trans [OF legalizeType_extends(1) this]
  show ?case by (simp add: legalizeTypes_def)
qed

lemma example_first_legalization:
  "fst (legalizeType example_target empty_legalization_context mixed_struct)
     = \<lparr>flavor = LegalFlavor_pair, obj = Some 2, irType = None\<rparr>"
  by code_simp

lemma example_first_heap:
  "length (legalHeap (snd (legalizeType example_target empty_legalization_context mixed_struct))) = 3"
  by code_simp

lemma example_later_heap:
  "length (legalHeap (legalizeTypes example_target
      (snd (legalizeType example_target empty_legalization_context mixed_struct))
      [IRPtrLikeType 5 mixed_struct, IRBasicType 2])) = 4"
  by code_simp

text \<open>
  C4.  Within one legalization run, legalizing a type a second time, directly or after any
  number of other types have been legalized, returns the legal type of the first time: the
  same flavor, the same object address and the same IR type.  The second call leaves the
  context as it is, so it allocates no object and adds no cache entry, and the objects
  the first call allocated are still at their addresses, unchanged.
\<close>

theorem legalizeType_cached_identity:
  assumes "legalizeType tgt ctx t = (legalType, ctx1)"
  shows "legalizeType tgt (legalizeTypes tgt ctx1 us) t = (legalType, legalizeTypes tgt ctx1 us)
       \<and> take (length (legalHeap ctx1)) (legalHeap (legalizeTypes tgt ctx1 us)) = legalHeap ctx1"
proof -
  have "mapTypeToLegalType ctx1 t = Some legalType"
    using legalizeType_caches [of tgt ctx t] assms by simp
  moreover have e: "ctxExtends ctx1 (legalizeTypes tgt ctx1 us)"
    by (rule legalizeTypes_extends)
  ultimately have "mapTypeToLegalType (legalizeTypes tgt ctx1 us) t = Some legalType"
    unfolding ctxExtends_def by simp
  hence "legalizeType tgt (legalizeTypes tgt ctx1 us) t = (legalType, legalizeTypes tgt ctx1 us)"
    by (rule legalizeType_hit)
  thus ?thesis using e unfolding ctxExtends_def by simp
qed

theorem legalizeType_cached_identity_witness:
  "fst (legalizeType example_target
          (legalizeTypes example_target
             (snd (legalizeType example_target empty_legalization_context mixed_struct))
             [IRPtrLikeType 5 mixed_struct, IRBasicType 2])
          mixed_struct)
     = \<lparr>flavor = LegalFlavor_pair, obj = Some 2, irType = None\<rparr>
   \<and> length (legalHeap (snd (legalizeType example_target
          (legalizeTypes example_target
             (snd (legalizeType example_target empty_legalization_context mixed_struct))
             [IRPtrLikeType 5 mixed_struct, IRBasicType 2])
          mixed_struct))) = 4"
proof -
  have "legalizeType example_target
          (legalizeTypes example_target
             (snd (legalizeType example_target empty_legalization_context mixed_struct))
             [IRPtrLikeType 5 mixed_struct, IRBasicType 2])
          mixed_struct
        = (fst (legalizeType example_target empty_legalization_context mixed_struct),
           legalizeTypes example_target
             (snd (legalizeType example_target empty_legalization_context mixed_struct))
             [IRPtrLikeType 5 mixed_struct, IRBasicType 2])"
    using legalizeType_cached_identity
      [of example_target empty_legalization_context mixed_struct
          "fst (legalizeType example_target empty_legalization_context mixed_struct)"
          "snd (legalizeType example_target empty_legalization_context mixed_struct)"
          "[IRPtrLikeType 5 mixed_struct, IRBasicType 2]"]
    by simp
  thus ?thesis
    using example_first_legalization example_later_heap by simp
qed

end
